theory Spec2Isabelle
  imports Complex_Main "HOL-Library.Sublist"
begin

section \<open>Strings and the JavaScript primitives used by \<open>server.js\<close>\<close>

text \<open>
  A JavaScript string is modelled as a \<^typ>\<open>string\<close>: a list of code units, each below 256
  (the Latin-1 range). On that range the white space of \<open>String.prototype.trim\<close> and of
  the regular-expression class \<open>\s\<close> is TAB, LF, VT, FF, CR, SPACE and NBSP; the line
  terminators that \<open>.\<close> refuses are LF and CR; \<open>\d\<close> is the ten ASCII digits.

  Numbers: a JavaScript Number is an IEEE double. The numbers the modelled code computes
  are \<open>parseInt\<close> of a run of decimal digits, such a value plus 12 or 24, the month and
  day of a Date, and NaN: all of them integers that a double holds, or \<open>Infinity\<close>, or
  NaN. They are modelled by the type \<open>number\<close> below, with the rounding to a double
  written out.
\<close>

definition isWhiteSpace :: "char \<Rightarrow> bool" where
  "isWhiteSpace c \<longleftrightarrow>
     c = CHR 0x09 \<or> c = CHR 0x0A \<or> c = CHR 0x0B \<or> c = CHR 0x0C \<or> c = CHR 0x0D \<or>
     c = CHR 0x20 \<or> c = CHR 0xA0"

definition isLineTerminator :: "char \<Rightarrow> bool" where
  "isLineTerminator c \<longleftrightarrow> c = CHR 0x0A \<or> c = CHR 0x0D"

definition codeUnit :: "char \<Rightarrow> nat" where
  "codeUnit c = of_char c"

definition isDigit :: "char \<Rightarrow> bool" where
  "isDigit c \<longleftrightarrow> 48 \<le> codeUnit c \<and> codeUnit c \<le> 57"

text \<open>\<open>s.trim()\<close>: white space removed at both ends.\<close>

definition trim :: "string \<Rightarrow> string" where
  "trim s = rev (dropWhile isWhiteSpace (rev (dropWhile isWhiteSpace s)))"

subsection \<open>Numbers\<close>

datatype number = Finite int | Infinity | NaN

text \<open>
  \<open>roundDouble n\<close> is the Number value of a non-negative integer \<open>n\<close>: \<open>n\<close> itself below
  \<open>2^53 = 9007199254740992\<close>; above, the nearest integer with a significand of 53 bits,
  a tie going to the even significand; \<open>Infinity\<close> when that is \<open>2^1024\<close> or more.
  \<open>shiftCount n\<close> is the number of low bits that do not fit the significand.
\<close>

function shiftCount :: "int \<Rightarrow> nat" where
  "shiftCount n = (if n < 9007199254740992 then 0 else Suc (shiftCount (n div 2)))"
  by pat_completeness auto
termination
  by (relation "measure nat") auto

definition roundDouble :: "int \<Rightarrow> number" where
  "roundDouble n =
     (if n < 9007199254740992 then Finite n
      else
        let e = shiftCount n;
            q = n div 2 ^ e;
            r = n mod 2 ^ e;
            half = 2 ^ (e - 1);
            q' = (if half < r \<or> (r = half \<and> odd q) then q + 1 else q)
        in if 2 ^ 1024 \<le> q' * 2 ^ e then Infinity else Finite (q' * 2 ^ e))"

text \<open>
  \<open>parseInt(ds)\<close> for a capture of \<open>\d+\<close>: the Number value of the decimal value of the run
  (leading zeros allowed; no sign, no radix prefix can occur in such a capture). The
  language lets an implementation replace the digits after the twentieth significant
  one by zeros; the model keeps them, as V8 does. Nothing proved below about a run of
  more than twenty significant digits depends on that.
\<close>

definition digitVal :: "char \<Rightarrow> nat" where
  "digitVal c = codeUnit c - 48"

definition digitsValue :: "string \<Rightarrow> int" where
  "digitsValue ds = foldl (\<lambda>n c. 10 * n + int (digitVal c)) 0 ds"

definition parseInt :: "string \<Rightarrow> number" where
  "parseInt ds = roundDouble (digitsValue ds)"

text \<open>
  \<open>x + k\<close>, \<open>x >= k\<close> and \<open>x <= k\<close> for a Number \<open>x\<close> of the kind above and a small integer
  constant \<open>k\<close>: the sum is rounded again; a comparison with NaN is false.
\<close>

definition addNumber :: "number \<Rightarrow> int \<Rightarrow> number" where
  "addNumber x k =
     (case x of Finite v \<Rightarrow> roundDouble (v + k) | Infinity \<Rightarrow> Infinity | NaN \<Rightarrow> NaN)"

definition numGe :: "number \<Rightarrow> int \<Rightarrow> bool" where
  "numGe x k = (case x of Finite v \<Rightarrow> k \<le> v | Infinity \<Rightarrow> True | NaN \<Rightarrow> False)"

definition numLe :: "number \<Rightarrow> int \<Rightarrow> bool" where
  "numLe x k = (case x of Finite v \<Rightarrow> v \<le> k | Infinity \<Rightarrow> False | NaN \<Rightarrow> False)"

text \<open>
  \<open>String(x)\<close>. \<open>decimal\<close> and \<open>digitString\<close> write a natural number and a non-negative
  integer in decimal. For a finite \<open>x\<close> the language asks for the fewest significant
  digits that still read back as \<open>x\<close>, followed by zeros: \<open>shortestFrom v z\<close> looks for a
  multiple of \<open>10^z\<close> next to \<open>v\<close> that rounds to \<open>v\<close>, with \<open>z\<close> counting down, and takes
  the nearer one when both neighbours do. Up to 21 digits are written out; a longer
  number is written with an exponent (\<open>1e+21\<close>).
\<close>

fun decimal :: "nat \<Rightarrow> string" where
  "decimal n = (if n < 10 then [char_of (48 + n)] else decimal (n div 10) @ [char_of (48 + n mod 10)])"

function digitString :: "int \<Rightarrow> string" where
  "digitString n =
     (if n < 10 then [char_of (48 + nat n)]
      else digitString (n div 10) @ [char_of (48 + nat (n mod 10))])"
  by pat_completeness auto
termination
  by (relation "measure nat") auto

fun shortestFrom :: "int \<Rightarrow> nat \<Rightarrow> int" where
  "shortestFrom v 0 = v"
| "shortestFrom v (Suc z) =
     (let lo = (v div 10 ^ Suc z) * 10 ^ Suc z;
          hi = lo + 10 ^ Suc z;
          okLo = (roundDouble lo = Finite v);
          okHi = (roundDouble hi = Finite v)
      in if okLo \<and> okHi then (if v - lo \<le> hi - v then lo else hi)
         else if okLo then lo
         else if okHi then hi
         else shortestFrom v z)"

definition exponential :: "string \<Rightarrow> string" where
  "exponential full =
     (case rev (dropWhile (\<lambda>c. c = CHR ''0'') (rev full)) of
        [] \<Rightarrow> full
      | d # rest \<Rightarrow>
          (if rest = [] then [d] else d # CHR ''.'' # rest) @ ''e+'' @ decimal (length full - 1))"

definition positiveToString :: "int \<Rightarrow> string" where
  "positiveToString v =
     (let full = digitString (shortestFrom v (length (digitString v) - 1))
      in if length full \<le> 21 then full else exponential full)"

definition numberToString :: "number \<Rightarrow> string" where
  "numberToString x =
     (case x of
        NaN \<Rightarrow> ''NaN''
      | Infinity \<Rightarrow> ''Infinity''
      | Finite v \<Rightarrow> if v < 0 then CHR ''-'' # positiveToString (- v) else positiveToString v)"

subsection \<open>Regular expressions\<close>

text \<open>
  Canonicalisation of a code unit under the \<open>i\<close> flag (upper-casing). The patterns
  matched with that flag here are ASCII letters only (\<open>am\<close>, \<open>pm\<close>, \<open>free\<close>); on Latin-1 the
  only code units whose canonical form is an ASCII capital are that capital and its
  small letter, so upper-casing \<open>a\<close>..\<open>z\<close> and leaving every other unit alone decides the
  same matches.
\<close>

definition canonicalize :: "char \<Rightarrow> char" where
  "canonicalize c =
     (if 97 \<le> codeUnit c \<and> codeUnit c \<le> 122 then char_of (codeUnit c - 32) else c)"

definition matchesIgnoreCase :: "string \<Rightarrow> string \<Rightarrow> bool" where
  "matchesIgnoreCase pat s \<longleftrightarrow>
     map canonicalize (take (length pat) s) = map canonicalize pat"

text \<open>\<open>s.toLowerCase()\<close> on Latin-1: \<open>A\<close>..\<open>Z\<close> and the accented capitals 0xC0..0xDE (but 0xD7).\<close>

definition lowerChar :: "char \<Rightarrow> char" where
  "lowerChar c =
     (if (65 \<le> codeUnit c \<and> codeUnit c \<le> 90) \<or>
         (192 \<le> codeUnit c \<and> codeUnit c \<le> 222 \<and> codeUnit c \<noteq> 215)
      then char_of (codeUnit c + 32) else c)"

definition toLowerCase :: "string \<Rightarrow> string" where
  "toLowerCase s = map lowerChar s"

text \<open>
  An unanchored regular expression is tried at every start position from the left, the
  end of the string included; \<open>search m s\<close> returns the result of \<open>m\<close> at the first suffix
  where it matches.
\<close>

fun search :: "(string \<Rightarrow> 'a option) \<Rightarrow> string \<Rightarrow> 'a option" where
  "search m [] = m []"
| "search m (c # cs) = (case m (c # cs) of Some r \<Rightarrow> Some r | None \<Rightarrow> search m cs)"

section \<open>\<open>parsePrice\<close>\<close>

text \<open>
  \<^verbatim>\<open>
  function parsePrice(str) {
    if (!str || /free/i.test(str)) return 0;
    const m = str.match(/\$(\d+)/);
    return m ? parseInt(m[1]) : 0;
  }
  \<close>
  \<open>!str\<close> holds of the empty string only. \<open>/\$(\d+)/\<close> at a position: a dollar sign, then
  the longest run of digits, which must not be empty (\<open>\d+\<close> is greedy and nothing follows
  it, so the first attempt succeeds).
\<close>

definition freeTest :: "string \<Rightarrow> bool" where
  "freeTest s \<longleftrightarrow>
     search (\<lambda>t. if matchesIgnoreCase ''free'' t then Some () else None) s \<noteq> None"

definition dollarAt :: "string \<Rightarrow> string option" where
  "dollarAt s =
     (case s of
        [] \<Rightarrow> None
      | c # r \<Rightarrow>
          if c = CHR ''$'' \<and> takeWhile isDigit r \<noteq> [] then Some (takeWhile isDigit r) else None)"

definition parsePrice :: "string \<Rightarrow> number" where
  "parsePrice s =
     (if s = [] \<or> freeTest s then Finite 0
      else case search dollarAt s of Some ds \<Rightarrow> parseInt ds | None \<Rightarrow> Finite 0)"

section \<open>The listing parser: \<open>parseEvents\<close>\<close>

text \<open>
  \<open>parseEvents(html)\<close> first hands the document to cheerio and selects \<open>table tr\<close>; for each
  row it selects the \<open>td\<close> descendants. The HTML parser is a library outside the
  repository: the model starts from its result, the rows in document order, each a list
  of cells, each cell given by the two things the code reads of it.
\<close>

record cell =
  cellText :: string
  cellHref :: "string option"

text \<open>
  \<open>cellText\<close> is \<open>$(cell).text()\<close>; \<open>cellHref\<close> is \<open>$(cell).find('a').first().attr('href')\<close>,
  \<open>None\<close> when that is \<open>undefined\<close> (no anchor, or an anchor without the attribute).
\<close>

type_synonym row = "cell list"

record raw_event =
  day :: string
  titlePart :: string
  venue :: string
  area :: string
  genres :: "string list"
  priceStr :: string
  age :: string
  timeRaw :: string
  startHour :: number
  link :: string

subsection \<open>The date of a row\<close>

definition MONTH_MAP :: "(string \<times> nat) list" where
  "MONTH_MAP =
     [(''Jan'', 0), (''Feb'', 1), (''Mar'', 2), (''Apr'', 3), (''May'', 4), (''Jun'', 5),
      (''Jul'', 6), (''Aug'', 7), (''Sep'', 8), (''Oct'', 9), (''Nov'', 10), (''Dec'', 11)]"

text \<open>
  \<open>/(Jan|Feb|...|Dec)\s+(\d+)/\<close> at one position: a month name, at least one white space,
  at least one digit. White space, digits and what follows are disjoint classes, so the
  greedy runs are the only way to match. The result is the pair of captures.
\<close>

definition dateAt :: "string \<Rightarrow> (string \<times> string) option" where
  "dateAt s =
     (let name = take 3 s;
          r = drop 3 s;
          ds = takeWhile isDigit (dropWhile isWhiteSpace r)
      in if name \<in> set (map fst MONTH_MAP) \<and> takeWhile isWhiteSpace r \<noteq> [] \<and> ds \<noteq> []
         then Some (name, ds) else None)"

definition dateMatch :: "string \<Rightarrow> (string \<times> string) option" where
  "dateMatch dateCell = search dateAt dateCell"

text \<open>
  \<open>new Date(2026, month, date)\<close>. A Date holds a time value in milliseconds, or NaN (an
  Invalid Date, here \<open>None\<close>) when the value leaves the range of \<open>8.64e15\<close> ms around the
  epoch (\<open>TimeClip\<close>). A day of month outside the month rolls over into the neighbouring
  months (\<open>MakeDay\<close> adds it to the day number of the first of the month). The host's zone
  is taken to be UTC; in another zone every local midnight shifts by the zone's offset,
  which keeps the order of dates and moves the bound of \<open>TimeClip\<close> by less than a day.
\<close>

definition msPerDay :: int where
  "msPerDay = 86400000"

definition dayOfJan1 :: int where
  "dayOfJan1 = 20454"

definition monthLengths :: "int list" where
  "monthLengths = [31, 28, 31, 30, 31, 30, 31, 31, 30, 31, 30, 31]"

text \<open>
  \<open>dayOfJan1\<close> is the day number of 1 January 2026 counted from 1 January 1970 (56 years,
  14 of them leap years); \<open>monthLengths\<close> are the months of 2026.
\<close>

definition MakeDay :: "nat \<Rightarrow> int \<Rightarrow> int" where
  "MakeDay month date = dayOfJan1 + sum_list (take month monthLengths) + date - 1"

definition TimeClip :: "int \<Rightarrow> int option" where
  "TimeClip t = (if \<bar>t\<bar> > 8640000000000000 then None else Some t)"

definition newDate :: "nat \<Rightarrow> int \<Rightarrow> int option" where
  "newDate month date = TimeClip (MakeDay month date * msPerDay)"

definition RANGE_START :: "int option" where
  "RANGE_START = newDate 2 18"

definition RANGE_END :: "int option" where
  "RANGE_END = newDate 3 1"

text \<open>\<open>a < b\<close> on two Dates compares the time values; a comparison with NaN is false.\<close>

definition dateLess :: "int option \<Rightarrow> int option \<Rightarrow> bool" where
  "dateLess a b = (case a of None \<Rightarrow> False | Some x \<Rightarrow> (case b of None \<Rightarrow> False | Some y \<Rightarrow> x < y))"

text \<open>
  \<open>getMonth()\<close> and \<open>getDate()\<close>, NaN on an Invalid Date. The code reads them only of a date
  that passed the window check, which lies in 2026: the walk over \<open>monthLengths\<close> is the
  calendar of that year.
\<close>

fun monthAndDate :: "int list \<Rightarrow> int \<Rightarrow> int \<Rightarrow> int \<times> int" where
  "monthAndDate [] m d = (m, d + 1)"
| "monthAndDate (l # ls) m d = (if d < l then (m, d + 1) else monthAndDate ls (m + 1) (d - l))"

definition getMonth :: "int option \<Rightarrow> number" where
  "getMonth t =
     (case t of
        None \<Rightarrow> NaN
      | Some v \<Rightarrow> Finite (fst (monthAndDate monthLengths 0 (v div msPerDay - dayOfJan1))))"

definition getDate :: "int option \<Rightarrow> number" where
  "getDate t =
     (case t of
        None \<Rightarrow> NaN
      | Some v \<Rightarrow> Finite (snd (monthAndDate monthLengths 0 (v div msPerDay - dayOfJan1))))"

text \<open>\<open>padStart(2, '0')\<close>, and the day key.\<close>

definition padStart2 :: "string \<Rightarrow> string" where
  "padStart2 s = replicate (2 - length s) (CHR ''0'') @ s"

definition dayKeyOf :: "int option \<Rightarrow> string" where
  "dayKeyOf eventDate =
     (let mm = padStart2 (numberToString (addNumber (getMonth eventDate) 1));
          dd = padStart2 (numberToString (getDate eventDate))
      in ''2026-'' @ mm @ ''-'' @ dd)"

subsection \<open>The time range and the start hour\<close>

text \<open>
  \<open>/\(([^)]+)\)/\<close> at one position: an opening parenthesis, the longest run of characters
  other than \<open>)\<close>, not empty, then \<open>)\<close>. The capture is the run.
\<close>

definition notClose :: "char \<Rightarrow> bool" where
  "notClose c \<longleftrightarrow> c \<noteq> CHR '')''"

definition parenAt :: "string \<Rightarrow> string option" where
  "parenAt s =
     (case s of
        [] \<Rightarrow> None
      | c # r \<Rightarrow>
          if c = CHR ''('' \<and> takeWhile notClose r \<noteq> [] \<and> dropWhile notClose r \<noteq> []
          then Some (takeWhile notClose r) else None)"

definition timeRawOf :: "string \<Rightarrow> string" where
  "timeRawOf dateCell = (case search parenAt dateCell of Some g \<Rightarrow> g | None \<Rightarrow> [])"

text \<open>
  \<open>/^(\d+)(?::(\d+))?(am|pm)/i\<close>, anchored at the start: the longest run of digits, not
  empty; then the optional group, a colon and digits, tried first; then \<open>am\<close> or \<open>pm\<close> in any
  case. When the attempt with the group fails the attempt without it is made (it can
  only succeed when no colon follows the hour). The result is captures 1 and 3.
\<close>

definition isMeridiem :: "string \<Rightarrow> bool" where
  "isMeridiem s \<longleftrightarrow> matchesIgnoreCase ''am'' s \<or> matchesIgnoreCase ''pm'' s"

definition startMatch :: "string \<Rightarrow> (string \<times> string) option" where
  "startMatch s =
     (let h = takeWhile isDigit s;
          r = dropWhile isDigit s;
          withMinutes =
            (case r of
               [] \<Rightarrow> None
             | c # r2 \<Rightarrow>
                 if c = CHR '':'' \<and> takeWhile isDigit r2 \<noteq> [] \<and> isMeridiem (dropWhile isDigit r2)
                 then Some (h, take 2 (dropWhile isDigit r2)) else None);
          withoutMinutes = (if isMeridiem r then Some (h, take 2 r) else None)
      in if h = [] then None
         else case withMinutes of Some m \<Rightarrow> Some m | None \<Rightarrow> withoutMinutes)"

text \<open>
  \<^verbatim>\<open>
  let startHour = 0;
  if (startMatch) {
    startHour = parseInt(startMatch[1]);
    const meridiem = startMatch[3].toLowerCase();
    if (meridiem === 'pm' && startHour !== 12) startHour += 12;
    if (meridiem === 'am' && startHour === 12) startHour = 0;
    if (meridiem === 'am' && startHour >= 1 && startHour <= 6) startHour += 24;
  }
  \<close>
\<close>

definition hourOf :: "string \<Rightarrow> string \<Rightarrow> number" where
  "hourOf digits matched =
     (let h0 = parseInt digits;
          meridiem = toLowerCase matched;
          h1 = (if meridiem = ''pm'' \<and> h0 \<noteq> Finite 12 then addNumber h0 12 else h0);
          h2 = (if meridiem = ''am'' \<and> h1 = Finite 12 then Finite 0 else h1)
      in if meridiem = ''am'' \<and> numGe h2 1 \<and> numLe h2 6 then addNumber h2 24 else h2)"

definition startHourOf :: "string \<Rightarrow> number" where
  "startHourOf t =
     (case startMatch t of None \<Rightarrow> Finite 0 | Some (digits, matched) \<Rightarrow> hourOf digits matched)"

subsection \<open>The description cell\<close>

text \<open>\<open>s.indexOf(needle)\<close>: the first index where \<open>needle\<close> starts, or \<open>-1\<close>.\<close>

fun indexFrom :: "string \<Rightarrow> string \<Rightarrow> int \<Rightarrow> int" where
  "indexFrom needle [] i = (if needle = [] then i else - 1)"
| "indexFrom needle (c # cs) i =
     (if prefix needle (c # cs) then i else indexFrom needle cs (i + 1))"

definition indexOf :: "string \<Rightarrow> string \<Rightarrow> int" where
  "indexOf needle s = indexFrom needle s 0"

text \<open>
  \<open>/^(.+?)\s*\(([^)]+)\)\s*(.*)/\<close> on the venue part. \<open>areaTail\<close> is everything after the first
  group: white space, a parenthesised run without \<open>)\<close>, white space, and the rest of the
  line; it yields captures 2 and 3. The first group is lazy: it takes one character that
  is not a line terminator, then one more each time the tail fails to match.
\<close>

definition areaTail :: "string \<Rightarrow> (string \<times> string) option" where
  "areaTail s =
     (case dropWhile isWhiteSpace s of
        [] \<Rightarrow> None
      | c # r \<Rightarrow>
          if c = CHR ''('' \<and> takeWhile notClose r \<noteq> [] \<and> dropWhile notClose r \<noteq> []
          then Some (takeWhile notClose r,
                     takeWhile (\<lambda>x. \<not> isLineTerminator x)
                       (dropWhile isWhiteSpace (tl (dropWhile notClose r))))
          else None)"

fun venueLazy :: "string \<Rightarrow> string \<Rightarrow> (string \<times> string \<times> string) option" where
  "venueLazy taken [] = None"
| "venueLazy taken (c # cs) =
     (if isLineTerminator c then None
      else case areaTail cs of
             Some (a, g) \<Rightarrow> Some (taken @ [c], a, g)
           | None \<Rightarrow> venueLazy (taken @ [c]) cs)"

definition venueAreaMatch :: "string \<Rightarrow> (string \<times> string \<times> string) option" where
  "venueAreaMatch venuePart = venueLazy [] venuePart"

text \<open>\<open>s.split(',')\<close>: the pieces between the commas, empty pieces kept.\<close>

fun split :: "char \<Rightarrow> string \<Rightarrow> string list" where
  "split sep [] = [[]]"
| "split sep (c # cs) =
     (if c = sep then [] # split sep cs
      else case split sep cs of [] \<Rightarrow> [[c]] | p # ps \<Rightarrow> (c # p) # ps)"

text \<open>
  \<^verbatim>\<open>
  const atIdx = eventCell.indexOf(' @ ');
  const titlePart = atIdx > -1 ? eventCell.slice(0, atIdx).trim() : eventCell;
  let venuePart = atIdx > -1 ? eventCell.slice(atIdx + 3) : '';
  const venueAreaMatch = venuePart.match(/^(.+?)\s*\(([^)]+)\)\s*(.*)/);
  const venue = venueAreaMatch ? venueAreaMatch[1].trim() : venuePart.trim();
  const area = venueAreaMatch ? venueAreaMatch[2].trim() : '';
  const genreStr = venueAreaMatch ? venueAreaMatch[3].trim() : '';
  const genres = genreStr
    ? genreStr.split(',').map(g => g.trim().toLowerCase()).filter(Boolean) : [];
  \<close>
\<close>

definition titlePartOf :: "string \<Rightarrow> string" where
  "titlePartOf eventCell =
     (let atIdx = indexOf '' @ '' eventCell
      in if atIdx > - 1 then trim (take (nat atIdx) eventCell) else eventCell)"

definition venuePartOf :: "string \<Rightarrow> string" where
  "venuePartOf eventCell =
     (let atIdx = indexOf '' @ '' eventCell
      in if atIdx > - 1 then drop (nat (atIdx + 3)) eventCell else [])"

definition venueOf :: "string \<Rightarrow> string" where
  "venueOf venuePart =
     (case venueAreaMatch venuePart of Some (v, a, g) \<Rightarrow> trim v | None \<Rightarrow> trim venuePart)"

definition areaOf :: "string \<Rightarrow> string" where
  "areaOf venuePart =
     (case venueAreaMatch venuePart of Some (v, a, g) \<Rightarrow> trim a | None \<Rightarrow> [])"

definition genresOf :: "string \<Rightarrow> string list" where
  "genresOf venuePart =
     (let genreStr = (case venueAreaMatch venuePart of Some (v, a, g) \<Rightarrow> trim g | None \<Rightarrow> [])
      in if genreStr \<noteq> []
         then filter (\<lambda>g. g \<noteq> []) (map (\<lambda>g. toLowerCase (trim g)) (split (CHR '','') genreStr))
         else [])"

subsection \<open>One row, and all of them\<close>

text \<open>
  The body of the \<open>each\<close> callback: \<open>None\<close> where the callback returns early, \<open>Some\<close> of the
  record it pushes otherwise. \<open>MONTH_MAP[name]\<close> of a name not in the table would be
  \<open>undefined\<close> and the Date invalid, as it is for a day that is not finite. The day
  arithmetic of \<open>newDate\<close> is exact: a sum or product that a double would round is at
  least \<open>2^53\<close>, beyond the bound of \<open>TimeClip\<close>, so the Date is invalid either way.
\<close>

definition eventDateOf :: "string \<Rightarrow> string \<Rightarrow> int option" where
  "eventDateOf name digits =
     (case map_of MONTH_MAP name of
        None \<Rightarrow> None
      | Some m \<Rightarrow>
          (case parseInt digits of
             Finite d \<Rightarrow> newDate m d
           | Infinity \<Rightarrow> None
           | NaN \<Rightarrow> None))"

definition parseRow :: "row \<Rightarrow> raw_event option" where
  "parseRow cells =
     (if length cells < 4 then None
      else let dateCell = trim (cellText (cells ! 0)) in
        case dateMatch dateCell of
          None \<Rightarrow> None
        | Some (name, digits) \<Rightarrow>
            let eventDate = eventDateOf name digits in
            if dateLess eventDate RANGE_START \<or> dateLess RANGE_END eventDate then None
            else
              let timeRaw = timeRawOf dateCell;
                  eventCell = trim (cellText (cells ! 1));
                  venuePart = venuePartOf eventCell;
                  ageText = trim (cellText (cells ! 3))
              in Some \<lparr> day = dayKeyOf eventDate,
                        titlePart = titlePartOf eventCell,
                        venue = venueOf venuePart,
                        area = areaOf venuePart,
                        genres = genresOf venuePart,
                        priceStr = trim (cellText (cells ! 2)),
                        age = (if ageText \<noteq> [] then ageText else ''TBA''),
                        timeRaw = timeRaw,
                        startHour = startHourOf timeRaw,
                        link = (case cellHref (cells ! 1) of
                                  None \<Rightarrow> []
                                | Some h \<Rightarrow> h) \<rparr>)"

text \<open>The loop over the rows, pushing onto \<open>raw\<close> in document order.\<close>

definition parseEvents :: "row list \<Rightarrow> raw_event list" where
  "parseEvents rows =
     foldl (\<lambda>raw cells. case parseRow cells of None \<Rightarrow> raw | Some e \<Rightarrow> raw @ [e]) [] rows"

section \<open>The refresh pipeline\<close>

subsection \<open>The enrichment response as a JavaScript value\<close>

text \<open>
  \<open>enrichWithClaude\<close> returns \<open>JSON.parse(text)\<close>: any JSON value. An object is the list
  of its own properties. \<open>JUndefined\<close> is what reading a missing property gives. Of a
  number the code only asks whether it is zero.
\<close>

datatype jsval =
    JUndefined
  | JNull
  | JBool bool
  | JNum rat
  | JStr string
  | JArr "jsval list"
  | JObj "(string \<times> jsval) list"

datatype error = TypeError

text \<open>
  \<open>enriched[i]\<close>: reading a property of \<open>null\<close> or \<open>undefined\<close> throws; an array gives its
  element, an object its property named by the decimal form of \<open>i\<close>, a string its
  character; anything missing is \<open>undefined\<close>.
\<close>

fun element :: "jsval \<Rightarrow> nat \<Rightarrow> error + jsval" where
  "element JUndefined i = Inl TypeError"
| "element JNull i = Inl TypeError"
| "element (JArr xs) i = Inr (if i < length xs then xs ! i else JUndefined)"
| "element (JObj kvs) i = Inr (case map_of kvs (decimal i) of None \<Rightarrow> JUndefined | Some v \<Rightarrow> v)"
| "element (JStr s) i = Inr (if i < length s then JStr [s ! i] else JUndefined)"
| "element (JBool b) i = Inr JUndefined"
| "element (JNum n) i = Inr JUndefined"

text \<open>
  \<open>x?.key\<close> for the keys \<open>name\<close>, \<open>artists\<close> and \<open>type\<close>: \<open>undefined\<close> on \<open>null\<close> and
  \<open>undefined\<close>, the own property of an object, and \<open>undefined\<close> on every other value (no
  built-in prototype has one of these three keys).
\<close>

fun optionalProperty :: "jsval \<Rightarrow> string \<Rightarrow> jsval" where
  "optionalProperty (JObj kvs) key = (case map_of kvs key of None \<Rightarrow> JUndefined | Some v \<Rightarrow> v)"
| "optionalProperty v key = JUndefined"

fun truthy :: "jsval \<Rightarrow> bool" where
  "truthy JUndefined = False"
| "truthy JNull = False"
| "truthy (JBool b) = b"
| "truthy (JNum n) = (n \<noteq> 0)"
| "truthy (JStr s) = (s \<noteq> [])"
| "truthy (JArr xs) = True"
| "truthy (JObj kvs) = True"

text \<open>\<open>a || b\<close>\<close>

definition orElse :: "jsval \<Rightarrow> jsval \<Rightarrow> jsval" where
  "orElse a b = (if truthy a then a else b)"

subsection \<open>Merging\<close>

text \<open>
  The persisted event. Its fields carry the prefix \<open>ev_\<close> to keep them apart from the
  fields of the raw record that have the same names in the source.
\<close>

record event =
  ev_day :: string
  ev_name :: jsval
  ev_artists :: jsval
  ev_venue :: string
  ev_area :: string
  ev_startHour :: number
  ev_timeDisplay :: string
  ev_type :: jsval
  ev_genres :: "string list"
  ev_priceRaw :: number
  ev_priceDisplay :: string
  ev_age :: string
  ev_link :: string

text \<open>
  \<^verbatim>\<open>
  const events = rawEvents.map((raw, i) => ({
    day: raw.day,
    name: enriched[i]?.name || raw.titlePart,
    artists: enriched[i]?.artists || '',
    venue: raw.venue,
    area: raw.area,
    startHour: raw.startHour,
    timeDisplay: raw.timeRaw,
    type: enriched[i]?.type || 'night',
    genres: raw.genres,
    priceRaw: parsePrice(raw.priceStr),
    priceDisplay: raw.priceStr || 'TBA',
    age: raw.age,
    link: raw.link,
  }));
  \<close>
  \<open>mergeOne\<close> is the object built from \<open>raw\<close> and the value of \<open>enriched[i]\<close>; \<open>mergeFrom\<close>
  is the \<open>map\<close>, which stops at the first callback that throws.
\<close>

definition mergeOne :: "raw_event \<Rightarrow> jsval \<Rightarrow> event" where
  "mergeOne raw el =
     \<lparr> ev_day = day raw,
       ev_name = orElse (optionalProperty el ''name'') (JStr (titlePart raw)),
       ev_artists = orElse (optionalProperty el ''artists'') (JStr []),
       ev_venue = venue raw,
       ev_area = area raw,
       ev_startHour = startHour raw,
       ev_timeDisplay = timeRaw raw,
       ev_type = orElse (optionalProperty el ''type'') (JStr ''night''),
       ev_genres = genres raw,
       ev_priceRaw = parsePrice (priceStr raw),
       ev_priceDisplay = (if priceStr raw \<noteq> [] then priceStr raw else ''TBA''),
       ev_age = age raw,
       ev_link = link raw \<rparr>"

fun mergeFrom :: "nat \<Rightarrow> raw_event list \<Rightarrow> jsval \<Rightarrow> error + event list" where
  "mergeFrom i [] enriched = Inr []"
| "mergeFrom i (raw # rest) enriched =
     (case element enriched i of
        Inl e \<Rightarrow> Inl e
      | Inr el \<Rightarrow>
          (case mergeFrom (Suc i) rest enriched of
             Inl e \<Rightarrow> Inl e
           | Inr evs \<Rightarrow> Inr (mergeOne raw el # evs)))"

definition mergeEvents :: "raw_event list \<Rightarrow> jsval \<Rightarrow> error + event list" where
  "mergeEvents rawEvents enriched = mergeFrom 0 rawEvents enriched"

subsection \<open>\<open>refresh\<close>\<close>

text \<open>
  What \<open>refresh\<close> meets outside the program is given by an environment: the outcome of
  the \<open>try\<close> block around \<open>fetch\<close> and \<open>res.text()\<close> (\<open>Inl\<close> the message of what was thrown,
  \<open>Inr\<close> the document), cheerio's reading of a document as rows, the outcome of
  \<open>enrichWithClaude\<close> on a batch (\<open>Inl\<close> when it throws, which includes \<open>JSON.parse\<close>
  failing), and the clock. The store is the file \<open>events.json\<close>, as the object it
  serialises, with a count of the writes made to it (\<open>JSON.stringify\<close> writes a Number
  that is not finite as \<open>null\<close>). Console output is left out.
\<close>

record artifact =
  updatedAt :: string
  events :: "event list"

record store =
  eventsFile :: "artifact option"
  writes :: nat

record env =
  fetched :: "string + string"
  tableRows :: "string \<Rightarrow> row list"
  enrichWithClaude :: "raw_event list \<Rightarrow> string + jsval"
  now :: string

datatype completion = Returned | Thrown error

definition writeFileSync :: "artifact \<Rightarrow> store \<Rightarrow> store" where
  "writeFileSync a st = \<lparr> eventsFile = Some a, writes = Suc (writes st) \<rparr>"

definition refresh :: "env \<Rightarrow> store \<Rightarrow> completion \<times> store" where
  "refresh e st =
     (case fetched e of
        Inl err \<Rightarrow> (Returned, st)
      | Inr html \<Rightarrow>
          let rawEvents = parseEvents (tableRows e html) in
          if length rawEvents = 0 then (Returned, st)
          else
            (case enrichWithClaude e rawEvents of
               Inl err \<Rightarrow> (Returned, st)
             | Inr enriched \<Rightarrow>
                 (case mergeEvents rawEvents enriched of
                    Inl err \<Rightarrow> (Thrown err, st)
                  | Inr evs \<Rightarrow>
                      (Returned, writeFileSync \<lparr> updatedAt = now e, events = evs \<rparr> st))))"

subsection \<open>Reference data for the statements\<close>

text \<open>The closed set of event types, as the repository's test script \<open>test-job.js\<close> has it.\<close>

definition VALID_TYPES :: "string list" where
  "VALID_TYPES = [''pool'', ''outdoor'', ''night'', ''festival'', ''cruise'']"

text \<open>The record that the parser makes of the listing row of the end-to-end example.\<close>

definition sampleRaw :: raw_event where
  "sampleRaw =
     \<lparr> day = ''2026-03-27'', titlePart = ''Bass Church'', venue = ''Toe Jam Backlot'',
       area = ''Miami'', genres = [''tech house'', ''bass''], priceStr = ''$20'', age = ''21+'',
       timeRaw = ''10pm-5am'', startHour = Finite 22, link = [] \<rparr>"

text \<open>The listing row of the end-to-end example, as its four cells.\<close>

definition sampleRow :: row where
  "sampleRow =
     [\<lparr> cellText = ''Fri: Mar 27 (10pm-5am)'', cellHref = None \<rparr>,
      \<lparr> cellText = ''Bass Church @ Toe Jam Backlot (Miami) tech house, bass'', cellHref = None \<rparr>,
      \<lparr> cellText = ''$20'', cellHref = None \<rparr>,
      \<lparr> cellText = ''21+'', cellHref = None \<rparr>]"

text \<open>An enrichment response for the example batch, and the events merged from it.\<close>

definition sampleEnriched :: jsval where
  "sampleEnriched =
     JArr [JObj [(''name'', JStr ''Bass Church''), (''artists'', JStr ''Chris Lake''),
                 (''type'', JStr ''outdoor'')]]"

definition sampleEvent :: event where
  "sampleEvent =
     \<lparr> ev_day = ''2026-03-27'', ev_name = JStr ''Bass Church'', ev_artists = JStr ''Chris Lake'',
       ev_venue = ''Toe Jam Backlot'', ev_area = ''Miami'', ev_startHour = Finite 22,
       ev_timeDisplay = ''10pm-5am'', ev_type = JStr ''outdoor'',
       ev_genres = [''tech house'', ''bass''], ev_priceRaw = Finite 20, ev_priceDisplay = ''$20'',
       ev_age = ''21+'', ev_link = [] \<rparr>"

definition fallbackEvent :: event where
  "fallbackEvent =
     sampleEvent \<lparr> ev_name := JStr ''Bass Church'', ev_artists := JStr [],
                   ev_type := JStr ''night'' \<rparr>"

text \<open>A response whose only element has a type outside the closed set.\<close>

definition raveEnriched :: jsval where
  "raveEnriched =
     JArr [JObj [(''name'', JStr ''Bass Church''), (''artists'', JStr ''Chris Lake''),
                 (''type'', JStr ''rave'')]]"

text \<open>A store holding an earlier artifact, and four environments for one cycle.\<close>

definition stale :: store where
  "stale =
     \<lparr> eventsFile = Some \<lparr> updatedAt = ''2026-03-20T12:00:00.000Z'', events = [fallbackEvent] \<rparr>,
       writes = 1 \<rparr>"

definition envFetchThrows :: env where
  "envFetchThrows =
     \<lparr> fetched = Inl ''ECONNREFUSED'', tableRows = (\<lambda>html. [sampleRow]),
       enrichWithClaude = (\<lambda>batch. Inr sampleEnriched), now = ''2026-03-20T12:05:00.000Z'' \<rparr>"

definition envNoRows :: env where
  "envNoRows =
     \<lparr> fetched = Inr ''<html></html>'', tableRows = (\<lambda>html. []),
       enrichWithClaude = (\<lambda>batch. Inr sampleEnriched), now = ''2026-03-20T12:05:00.000Z'' \<rparr>"

definition envEnrichThrows :: env where
  "envEnrichThrows =
     \<lparr> fetched = Inr ''<table>...</table>'', tableRows = (\<lambda>html. [sampleRow]),
       enrichWithClaude = (\<lambda>batch. Inl ''Unexpected token''),
       now = ''2026-03-20T12:05:00.000Z'' \<rparr>"

definition envGood :: env where
  "envGood =
     \<lparr> fetched = Inr ''<table>...</table>'', tableRows = (\<lambda>html. [sampleRow]),
       enrichWithClaude = (\<lambda>batch. Inr sampleEnriched), now = ''2026-03-20T12:05:00.000Z'' \<rparr>"

text \<open>
  The words of the price rule, as predicates on the string: it contains \<open>free\<close> in some
  mix of cases; it contains a dollar sign immediately followed by a digit.
\<close>

definition containsFree :: "string \<Rightarrow> bool" where
  "containsFree s \<longleftrightarrow>
     (\<exists>pre a b c d post. s = pre @ a # b # c # d # post \<and>
        (a = CHR ''F'' \<or> a = CHR ''f'') \<and> (b = CHR ''R'' \<or> b = CHR ''r'') \<and>
        (c = CHR ''E'' \<or> c = CHR ''e'') \<and> (d = CHR ''E'' \<or> d = CHR ''e''))"

definition containsDollarDigit :: "string \<Rightarrow> bool" where
  "containsDollarDigit s \<longleftrightarrow> (\<exists>pre d post. s = pre @ CHR ''$'' # d # post \<and> isDigit d)"

text \<open>
  The words of the hour rule: \<open>startsWithTime t ds m\<close> says that the text \<open>t\<close> begins with the
  hour digits \<open>ds\<close>, optionally a colon and minute digits, and then the meridiem \<open>m\<close>, which
  is \<open>am\<close> or \<open>pm\<close> in any mix of cases.
\<close>

definition isAm :: "string \<Rightarrow> bool" where
  "isAm m \<longleftrightarrow> m \<in> set [''am'', ''aM'', ''Am'', ''AM'']"

definition isPm :: "string \<Rightarrow> bool" where
  "isPm m \<longleftrightarrow> m \<in> set [''pm'', ''pM'', ''Pm'', ''PM'']"

definition startsWithTime :: "string \<Rightarrow> string \<Rightarrow> string \<Rightarrow> bool" where
  "startsWithTime t ds m \<longleftrightarrow>
     ds \<noteq> [] \<and> (\<forall>c\<in>set ds. isDigit c) \<and> (isAm m \<or> isPm m) \<and>
     (\<exists>rest. t = ds @ m @ rest \<or>
        (\<exists>mins. mins \<noteq> [] \<and> (\<forall>c\<in>set mins. isDigit c) \<and> t = ds @ CHR '':'' # mins @ m @ rest))"

text \<open>A listing row like the example, with another time range in its first cell.\<close>

definition hourRow :: "string \<Rightarrow> row" where
  "hourRow t =
     [\<lparr> cellText = ''Fri: Mar 27 ('' @ t @ '')'', cellHref = None \<rparr>,
      \<lparr> cellText = ''Bass Church @ Toe Jam Backlot (Miami) tech house, bass'', cellHref = None \<rparr>,
      \<lparr> cellText = ''$20'', cellHref = None \<rparr>,
      \<lparr> cellText = ''21+'', cellHref = None \<rparr>]"

text \<open>\<open>occursIn needle s\<close>: the string \<open>s\<close> contains \<open>needle\<close>.\<close>

definition occursIn :: "string \<Rightarrow> string \<Rightarrow> bool" where
  "occursIn needle s \<longleftrightarrow> (\<exists>pre post. s = pre @ needle @ post)"

text \<open>A row whose description has no separator, and the record the parser makes of it.\<close>

definition plainRow :: row where
  "plainRow =
     [\<lparr> cellText = ''Sat: Mar 28 (12pm-11pm)'', cellHref = None \<rparr>,
      \<lparr> cellText = '' Ultra Music Festival  '',
        cellHref = Some ''https://ultramusicfestival.com'' \<rparr>,
      \<lparr> cellText = [], cellHref = None \<rparr>,
      \<lparr> cellText = ''All ages'', cellHref = None \<rparr>]"

definition plainRaw :: raw_event where
  "plainRaw =
     \<lparr> day = ''2026-03-28'', titlePart = ''Ultra Music Festival'', venue = [], area = [],
       genres = [], priceStr = [], age = ''All ages'', timeRaw = ''12pm-11pm'',
       startHour = Finite 12, link = ''https://ultramusicfestival.com'' \<rparr>"

text \<open>A listing row like the example, with another text in its first cell.\<close>

definition dateRow :: "string \<Rightarrow> row" where
  "dateRow d =
     [\<lparr> cellText = d, cellHref = None \<rparr>,
      \<lparr> cellText = ''Bass Church @ Toe Jam Backlot (Miami) tech house, bass'', cellHref = None \<rparr>,
      \<lparr> cellText = ''$20'', cellHref = None \<rparr>,
      \<lparr> cellText = ''21+'', cellHref = None \<rparr>]"

declare decimal.simps [simp del]

declare shiftCount.simps [simp del]

declare digitString.simps [simp del]


section \<open>Properties of the string primitives\<close>

lemma char_eq_codeUnit: "c = d \<longleftrightarrow> codeUnit c = codeUnit d"
  by (simp add: codeUnit_def)

lemma codeUnit_less: "codeUnit c < 256"
  by (simp add: codeUnit_def)

lemma codeUnit_char_of: "n < 256 \<Longrightarrow> codeUnit (char_of n) = n"
  by (simp add: codeUnit_def)

lemma codeUnit_canonicalize:
  "codeUnit (canonicalize c) =
     (if 97 \<le> codeUnit c \<and> codeUnit c \<le> 122 then codeUnit c - 32 else codeUnit c)"
proof -
  have "codeUnit c - 32 < 256"
    using codeUnit_less [of c] by simp
  then show ?thesis
    by (simp add: canonicalize_def codeUnit_char_of)
qed

lemma codeUnit_letters:
  "codeUnit (CHR ''F'') = 70" "codeUnit (CHR ''f'') = 102"
  "codeUnit (CHR ''R'') = 82" "codeUnit (CHR ''r'') = 114"
  "codeUnit (CHR ''E'') = 69" "codeUnit (CHR ''e'') = 101"
  "codeUnit (CHR ''A'') = 65" "codeUnit (CHR ''a'') = 97"
  "codeUnit (CHR ''P'') = 80" "codeUnit (CHR ''p'') = 112"
  "codeUnit (CHR ''M'') = 77" "codeUnit (CHR ''m'') = 109"
  "codeUnit (CHR ''$'') = 36"
  by (simp_all add: codeUnit_def)

lemma canonicalize_letters:
  "canonicalize c = CHR ''F'' \<longleftrightarrow> c = CHR ''F'' \<or> c = CHR ''f''"
  "canonicalize c = CHR ''R'' \<longleftrightarrow> c = CHR ''R'' \<or> c = CHR ''r''"
  "canonicalize c = CHR ''E'' \<longleftrightarrow> c = CHR ''E'' \<or> c = CHR ''e''"
  "canonicalize c = CHR ''A'' \<longleftrightarrow> c = CHR ''A'' \<or> c = CHR ''a''"
  "canonicalize c = CHR ''P'' \<longleftrightarrow> c = CHR ''P'' \<or> c = CHR ''p''"
  "canonicalize c = CHR ''M'' \<longleftrightarrow> c = CHR ''M'' \<or> c = CHR ''m''"
  unfolding char_eq_codeUnit codeUnit_canonicalize codeUnit_letters by auto

lemma matches_free_iff:
  "matchesIgnoreCase ''free'' t \<longleftrightarrow>
     (\<exists>a b c d rest. t = a # b # c # d # rest \<and>
        (a = CHR ''F'' \<or> a = CHR ''f'') \<and> (b = CHR ''R'' \<or> b = CHR ''r'') \<and>
        (c = CHR ''E'' \<or> c = CHR ''e'') \<and> (d = CHR ''E'' \<or> d = CHR ''e''))"
proof -
  have can: "map canonicalize ''free'' = ''FREE''"
    by code_simp
  show ?thesis
  proof (cases t)
    case Nil
    then show ?thesis by (simp add: matchesIgnoreCase_def)
  next
    case (Cons a t1)
    show ?thesis
    proof (cases t1)
      case Nil
      with Cons show ?thesis by (simp add: matchesIgnoreCase_def)
    next
      case (Cons b t2)
      note t1 = this
      show ?thesis
      proof (cases t2)
        case Nil
        with t1 \<open>t = a # t1\<close> show ?thesis by (simp add: matchesIgnoreCase_def)
      next
        case (Cons c t3)
        note t2 = this
        show ?thesis
        proof (cases t3)
          case Nil
          with t1 t2 \<open>t = a # t1\<close> show ?thesis by (simp add: matchesIgnoreCase_def)
        next
          case (Cons d rest)
          with t1 t2 \<open>t = a # t1\<close> have t: "t = a # b # c # d # rest" by simp
          show ?thesis
            unfolding matchesIgnoreCase_def can t
            by (simp add: canonicalize_letters)
        qed
      qed
    qed
  qed
qed


lemma search_hit: "m s = Some r \<Longrightarrow> search m s = Some r"
  by (cases s) simp_all

lemma search_None_iff: "search m s = None \<longleftrightarrow> (\<forall>pre post. s = pre @ post \<longrightarrow> m post = None)"
proof (induction s)
  case Nil
  show ?case by simp
next
  case (Cons c cs)
  have "search m (c # cs) = None \<longleftrightarrow> m (c # cs) = None \<and> search m cs = None"
    by (simp split: option.splits)
  also have "\<dots> \<longleftrightarrow> m (c # cs) = None \<and> (\<forall>pre post. cs = pre @ post \<longrightarrow> m post = None)"
    by (simp only: Cons.IH)
  also have "\<dots> \<longleftrightarrow> (\<forall>pre post. c # cs = pre @ post \<longrightarrow> m post = None)"
    by (auto simp: Cons_eq_append_conv)
  finally show ?case .
qed

lemma search_first:
  "m post = Some r \<Longrightarrow> (\<forall>p q. pre = p @ q \<longrightarrow> q \<noteq> [] \<longrightarrow> m (q @ post) = None) \<Longrightarrow>
     search m (pre @ post) = Some r"
proof (induction pre)
  case Nil
  then show ?case by (simp add: search_hit)
next
  case (Cons c pre)
  from Cons.prems(2) have "m ((c # pre) @ post) = None"
    by blast
  moreover have "search m (pre @ post) = Some r"
  proof (rule Cons.IH [OF Cons.prems(1)], intro allI impI)
    fix p q
    assume "pre = p @ q" "q \<noteq> []"
    then have "c # pre = (c # p) @ q" by simp
    with Cons.prems(2) \<open>q \<noteq> []\<close> show "m (q @ post) = None" by blast
  qed
  ultimately show ?case by simp
qed

lemma freeTest_iff: "freeTest s \<longleftrightarrow> containsFree s"
proof -
  have "freeTest s \<longleftrightarrow> (\<exists>pre post. s = pre @ post \<and> matchesIgnoreCase ''free'' post)"
    unfolding freeTest_def search_None_iff by (auto split: if_splits)
  also have "\<dots> \<longleftrightarrow> containsFree s"
    unfolding matches_free_iff containsFree_def by blast
  finally show ?thesis .
qed

lemma takeWhile_nonempty: "takeWhile P xs \<noteq> [] \<longleftrightarrow> (\<exists>x r. xs = x # r \<and> P x)"
  by (cases xs) auto

lemma dollarAt_Some_iff:
  "dollarAt t = Some ds \<longleftrightarrow>
     (\<exists>d r. t = CHR ''$'' # d # r \<and> isDigit d \<and> ds = takeWhile isDigit (d # r))"
  unfolding dollarAt_def by (cases t) (auto simp: takeWhile_nonempty)

lemma dollarAt_None_iff:
  "dollarAt t = None \<longleftrightarrow> \<not> (\<exists>d r. t = CHR ''$'' # d # r \<and> isDigit d)"
  unfolding dollarAt_def by (cases t) (auto simp: takeWhile_nonempty)

lemma search_dollar_None_iff: "search dollarAt s = None \<longleftrightarrow> \<not> containsDollarDigit s"
  unfolding search_None_iff dollarAt_None_iff containsDollarDigit_def by blast

lemma dollar_not_digit: "\<not> isDigit (CHR ''$'')"
  by (simp add: isDigit_def codeUnit_def)

lemma dollar_not_space: "\<not> isWhiteSpace (CHR ''$'')"
  by (simp add: isWhiteSpace_def)

lemma search_dollar_first:
  assumes ds: "ds \<noteq> []" "\<forall>c\<in>set ds. isDigit c"
      and post: "post = [] \<or> \<not> isDigit (hd post)"
      and first: "\<not> containsDollarDigit pre"
  shows "search dollarAt (pre @ CHR ''$'' # ds @ post) = Some ds"
proof (rule search_first)
  have "takeWhile isDigit post = []"
    using post by (cases post) auto
  then have "takeWhile isDigit (ds @ post) = ds"
    using ds(2) by (simp add: takeWhile_append2)
  moreover obtain d r where "ds = d # r"
    using ds(1) by (cases ds) auto
  ultimately show "dollarAt (CHR ''$'' # ds @ post) = Some ds"
    using ds(2) by (auto simp: dollarAt_Some_iff)
next
  show "\<forall>p q. pre = p @ q \<longrightarrow> q \<noteq> [] \<longrightarrow> dollarAt (q @ CHR ''$'' # ds @ post) = None"
  proof (intro allI impI)
    fix p q
    assume pre: "pre = p @ q" and "q \<noteq> []"
    then obtain x q' where q: "q = x # q'" by (cases q) auto
    show "dollarAt (q @ CHR ''$'' # ds @ post) = None"
    proof (cases q')
      case Nil
      with q show ?thesis by (simp add: dollarAt_None_iff dollar_not_digit)
    next
      case (Cons d q'')
      have "\<not> (x = CHR ''$'' \<and> isDigit d)"
        using first pre q Cons unfolding containsDollarDigit_def by auto
      with q Cons show ?thesis by (auto simp: dollarAt_None_iff)
    qed
  qed
qed

section \<open>Properties of the numbers\<close>

lemma roundDouble_small: "n < 9007199254740992 \<Longrightarrow> roundDouble n = Finite n"
  by (simp add: roundDouble_def)

lemma shiftCount_upper: "0 \<le> n \<Longrightarrow> n div 2 ^ shiftCount n < 9007199254740992"
proof (induction n rule: shiftCount.induct)
  case (1 n)
  show ?case
  proof (cases "n < 9007199254740992")
    case True
    then show ?thesis by (subst shiftCount.simps) simp
  next
    case False
    with 1 have "n div 2 div 2 ^ shiftCount (n div 2) < 9007199254740992"
      by simp
    moreover have "n div 2 div 2 ^ shiftCount (n div 2) = n div 2 ^ Suc (shiftCount (n div 2))"
      by (simp add: zdiv_zmult2_eq)
    ultimately show ?thesis
      using False by (subst shiftCount.simps) simp
  qed
qed

lemma scale_ge: "(0::int) \<le> q \<Longrightarrow> q \<le> q * 2 ^ e"
  using mult_left_mono [of 1 "2 ^ e" q] by simp

lemma scale_big:
  assumes "4503599627370496 \<le> q"
  shows "(9007199254740992::int) \<le> q * 2 ^ Suc e"
proof -
  have a: "q \<le> q * 2 ^ e"
    using assms by (intro scale_ge) simp
  have b: "q * 2 ^ Suc e = 2 * (q * 2 ^ e)"
    by simp
  show ?thesis
    unfolding b using a assms by linarith
qed

lemma shiftCount_scaled:
  "4503599627370496 \<le> q \<Longrightarrow> q < 9007199254740992 \<Longrightarrow> shiftCount (q * 2 ^ e) = e"
proof (induction e)
  case 0
  then show ?case by (subst shiftCount.simps) simp
next
  case (Suc e)
  have "9007199254740992 \<le> q * 2 ^ Suc e"
    using Suc.prems(1) by (rule scale_big)
  moreover have "q * 2 ^ Suc e div 2 = q * 2 ^ e"
    by simp
  ultimately show ?case
    using Suc by (subst shiftCount.simps) simp
qed

lemma shiftCount_lower:
  "9007199254740992 \<le> n \<Longrightarrow> 4503599627370496 \<le> n div 2 ^ shiftCount n"
proof (induction n rule: shiftCount.induct)
  case (1 n)
  show ?case
  proof (cases "n div 2 < 9007199254740992")
    case True
    then have "shiftCount (n div 2) = 0"
      by (subst shiftCount.simps) simp
    with "1.prems" have "shiftCount n = Suc 0"
      by (subst shiftCount.simps) simp
    with "1.prems" show ?thesis by simp
  next
    case False
    with 1 have "4503599627370496 \<le> n div 2 div 2 ^ shiftCount (n div 2)"
      by simp
    moreover have "n div 2 div 2 ^ shiftCount (n div 2) = n div 2 ^ Suc (shiftCount (n div 2))"
      by (simp add: zdiv_zmult2_eq)
    ultimately show ?thesis
      using "1.prems" by (subst shiftCount.simps) simp
  qed
qed

lemma shiftCount_pos: "9007199254740992 \<le> n \<Longrightarrow> 0 < shiftCount n"
  by (subst shiftCount.simps) simp

lemma roundDouble_scaled:
  assumes "4503599627370496 \<le> q" "q < 9007199254740992" "0 < e" "q * 2 ^ e < 2 ^ 1024"
  shows "roundDouble (q * 2 ^ e) = Finite (q * 2 ^ e)"
proof -
  have big: "\<not> q * 2 ^ e < 9007199254740992"
  proof -
    obtain e' where e: "e = Suc e'" using assms(3) by (cases e) auto
    from scale_big [OF assms(1), of e'] e show ?thesis by simp
  qed
  have sc: "shiftCount (q * 2 ^ e) = e"
    using assms(1,2) by (rule shiftCount_scaled)
  have "(0::int) < 2 ^ (e - 1)" by simp
  then have "\<not> (2::int) ^ (e - 1) < 0" "(0::int) \<noteq> 2 ^ (e - 1)"
    by simp_all
  with big sc assms(4) show ?thesis
    by (simp add: roundDouble_def Let_def)
qed

lemma roundDouble_idem:
  assumes "roundDouble n = Finite v"
  shows "roundDouble v = Finite v"
proof (cases "n < 9007199254740992")
  case True
  with assms show ?thesis by (simp add: roundDouble_def)
next
  case False
  define e where "e = shiftCount n"
  define q where "q = n div 2 ^ e"
  define q' where "q' = (if 2 ^ (e - 1) < n mod 2 ^ e \<or> (n mod 2 ^ e = 2 ^ (e - 1) \<and> odd q) then q + 1 else q)"
  from False have n: "9007199254740992 \<le> n" by simp
  from assms False have v: "v = q' * 2 ^ e" and fin: "q' * 2 ^ e < 2 ^ 1024"
    by (auto simp: roundDouble_def Let_def e_def q_def q'_def split: if_splits)
  have q: "4503599627370496 \<le> q" "q < 9007199254740992"
    using shiftCount_lower [OF n] shiftCount_upper [of n] n by (simp_all add: q_def e_def)
  have e: "0 < e"
    using shiftCount_pos [OF n] by (simp add: e_def)
  have q'': "q' = q \<or> q' = q + 1"
    by (simp add: q'_def)
  show ?thesis
  proof (cases "q' < 9007199254740992")
    case True
    with q q'' have "4503599627370496 \<le> q'" by auto
    from roundDouble_scaled [OF this True e fin] v show ?thesis by simp
  next
    case False
    with q q'' have q'eq: "q' = 9007199254740992" by auto
    have "q' * 2 ^ e = 4503599627370496 * 2 ^ Suc e"
      by (simp add: q'eq)
    moreover from this fin have "(4503599627370496::int) * 2 ^ Suc e < 2 ^ 1024"
      by simp
    then have "roundDouble (4503599627370496 * 2 ^ Suc e) = Finite (4503599627370496 * 2 ^ Suc e)"
      by (intro roundDouble_scaled) simp_all
    ultimately show ?thesis
      using v by simp
  qed
qed


lemma roundDouble_nonneg:
  assumes "0 \<le> n" and "roundDouble n = Finite v"
  shows "0 \<le> v"
proof (cases "n < 9007199254740992")
  case True
  with assms show ?thesis by (simp add: roundDouble_def)
next
  case False
  have "0 \<le> n div 2 ^ shiftCount n"
    using assms(1) by (simp add: pos_imp_zdiv_nonneg_iff)
  with assms(2) False show ?thesis
    by (auto simp: roundDouble_def Let_def split: if_splits)
qed

lemma digit_char: "k < 10 \<Longrightarrow> isDigit (char_of (48 + k)) \<and> digitVal (char_of (48 + k)) = k"
  by (simp add: isDigit_def digitVal_def codeUnit_def)

lemma digitString_digits:
  "0 \<le> n \<Longrightarrow> digitString n \<noteq> [] \<and> (\<forall>c\<in>set (digitString n). isDigit c)"
proof (induction n rule: digitString.induct)
  case (1 n)
  show ?case
  proof (cases "n < 10")
    case True
    with "1.prems" have "nat n < 10" by simp
    with True show ?thesis
      by (subst digitString.simps, subst (2) digitString.simps) (simp add: digit_char)
  next
    case False
    have "nat (n mod 10) < 10" by simp
    then have "isDigit (char_of (48 + nat (n mod 10)))" by (simp add: digit_char)
    moreover from False 1 have "\<forall>c\<in>set (digitString (n div 10)). isDigit c" by simp
    ultimately show ?thesis
      using False by (subst digitString.simps, subst (2) digitString.simps) simp
  qed
qed

lemma digitsValue_snoc: "digitsValue (ds @ [c]) = 10 * digitsValue ds + int (digitVal c)"
  by (simp add: digitsValue_def)

lemma digitsValue_digitString: "0 \<le> n \<Longrightarrow> digitsValue (digitString n) = n"
proof (induction n rule: digitString.induct)
  case (1 n)
  show ?case
  proof (cases "n < 10")
    case True
    with "1.prems" have "nat n < 10" by simp
    with True "1.prems" show ?thesis
      by (subst digitString.simps) (simp add: digitsValue_def digit_char)
  next
    case False
    with 1 have "digitsValue (digitString (n div 10)) = n div 10" by simp
    moreover have "nat (n mod 10) < 10" by simp
    ultimately show ?thesis
      using False by (subst digitString.simps) (simp add: digitsValue_snoc digit_char)
  qed
qed

lemma int_div_lower:
  fixes v p :: int
  assumes "0 < p"
  shows "p * (v div p) \<le> v"
  using mult_div_mod_eq [of p v] pos_mod_sign [OF assms, of v] by linarith

lemma int_div_less:
  fixes v p m :: int
  assumes "0 < p" "v < p * m"
  shows "v div p < m"
proof (rule ccontr)
  assume "\<not> v div p < m"
  then have "m \<le> v div p" by simp
  then have "p * m \<le> p * (v div p)"
    using assms(1) by (simp add: mult_left_mono)
  with int_div_lower [OF assms(1), of v] assms(2) show False by linarith
qed

lemma length_digitString:
  "0 \<le> n \<Longrightarrow> n < 10 ^ k \<Longrightarrow> 0 < k \<Longrightarrow> length (digitString n) \<le> k"
proof (induction n arbitrary: k rule: digitString.induct)
  case (1 n)
  show ?case
  proof (cases "n < 10")
    case True
    with "1.prems" show ?thesis by (subst digitString.simps) simp
  next
    case False
    obtain j where k: "k = Suc j" using "1.prems"(3) by (cases k) auto
    have "0 < j"
    proof (rule ccontr)
      assume "\<not> 0 < j"
      with k "1.prems"(2) False show False by simp
    qed
    moreover have "n div 10 < 10 ^ j"
      using "1.prems"(2) k by (intro int_div_less) simp_all
    moreover have "0 \<le> n div 10" using "1.prems"(1) by simp
    ultimately have "length (digitString (n div 10)) \<le> j"
      using "1.IH" [of j] False by simp
    with False k show ?thesis by (subst digitString.simps) simp
  qed
qed

lemma shortestFrom_round:
  "roundDouble v = Finite v \<Longrightarrow> roundDouble (shortestFrom v z) = Finite v"
  by (induction z) (simp_all add: Let_def)

lemma round_1e21: "roundDouble 1000000000000000000000 = Finite 1000000000000000000000"
  by code_simp

lemma multiple_step:
  fixes v p m :: int
  assumes "0 < p" "0 \<le> v" "v < p * m"
  shows "0 \<le> (v div p) * p" "(v div p) * p \<le> v" "(v div p) * p + p \<le> p * m"
proof -
  show "0 \<le> (v div p) * p"
    using assms(1,2) by (simp add: pos_imp_zdiv_nonneg_iff)
  show "(v div p) * p \<le> v"
    using int_div_lower [OF assms(1), of v] by (simp add: mult.commute)
  have "v div p < m"
    using assms(1,3) by (rule int_div_less)
  then have "v div p + 1 \<le> m" by simp
  then have "(v div p + 1) * p \<le> m * p"
    using assms(1) by (simp add: mult_right_mono)
  then show "(v div p) * p + p \<le> p * m"
    by (simp add: algebra_simps)
qed

lemma shortestFrom_bound:
  assumes "0 \<le> v" "v < 1000000000000000000000"
  shows "z \<le> 20 \<Longrightarrow> 0 \<le> shortestFrom v z \<and> shortestFrom v z < 1000000000000000000000"
proof (induction z)
  case 0
  with assms show ?case by simp
next
  case (Suc z)
  let ?p = "(10::int) ^ Suc z"
  have "(10::int) ^ 21 = ?p * 10 ^ (20 - z)"
    using Suc.prems by (simp add: power_add [symmetric])
  then have m: "1000000000000000000000 = ?p * 10 ^ (20 - z)"
    by simp
  have p: "0 < ?p" by simp
  from assms(2) m have "v < ?p * 10 ^ (20 - z)" by simp
  note st = multiple_step [OF p assms(1) this]
  have hi: "roundDouble ((v div ?p) * ?p + ?p) = Finite v \<Longrightarrow>
      (v div ?p) * ?p + ?p < 1000000000000000000000"
  proof -
    assume ok: "roundDouble ((v div ?p) * ?p + ?p) = Finite v"
    have "(v div ?p) * ?p + ?p \<noteq> 1000000000000000000000"
    proof
      assume "(v div ?p) * ?p + ?p = 1000000000000000000000"
      with ok round_1e21 assms(2) show False by simp
    qed
    with st(3) m show ?thesis by linarith
  qed
  from Suc have IH: "0 \<le> shortestFrom v z \<and> shortestFrom v z < 1000000000000000000000"
    by simp
  show ?case
    using st(1,2) assms(2) hi IH
    by (simp add: Let_def del: power_Suc)
qed

lemma positiveToString_roundtrip:
  assumes "0 \<le> v" "v < 1000000000000000000000" "roundDouble v = Finite v"
  shows "\<exists>c. positiveToString v = digitString c \<and> 0 \<le> c \<and> roundDouble c = Finite v"
proof -
  let ?z = "length (digitString v) - 1"
  let ?c = "shortestFrom v ?z"
  have "v < 10 ^ 21" using assms(2) by simp
  with assms(1) have "length (digitString v) \<le> 21"
    by (intro length_digitString) simp_all
  then have "?z \<le> 20" by simp
  from shortestFrom_bound [OF assms(1,2) this]
  have c: "0 \<le> ?c" "?c < 10 ^ 21" by simp_all
  then have "length (digitString ?c) \<le> 21"
    by (intro length_digitString) simp_all
  then have "positiveToString v = digitString ?c"
    by (simp add: positiveToString_def Let_def)
  moreover have "roundDouble ?c = Finite v"
    using assms(3) by (rule shortestFrom_round)
  ultimately show ?thesis
    using c(1) by blast
qed

lemma roundDouble_overflow:
  assumes "2 ^ 1024 \<le> n"
  shows "roundDouble n = Infinity"
proof -
  define e where "e = shiftCount n"
  define q where "q = n div 2 ^ e"
  have p53: "(9007199254740992::int) = 2 ^ 53" by simp
  have p52: "(4503599627370496::int) = 2 ^ 52" by simp
  have "(2::int) ^ 53 \<le> 2 ^ 1024"
    by (rule power_increasing) simp_all
  with assms have big: "9007199254740992 \<le> n" unfolding p53 by linarith
  then have n0: "0 \<le> n" by simp
  have up: "q < 2 ^ 53"
    using shiftCount_upper [OF n0] unfolding q_def e_def p53 .
  have lo: "2 ^ 52 \<le> q"
    using shiftCount_lower [OF big] unfolding q_def e_def p52 .
  have e: "972 \<le> e"
  proof (rule ccontr)
    assume "\<not> 972 \<le> e"
    then have le: "e \<le> 971" by simp
    have "(2::int) ^ 1024 div 2 ^ e \<le> n div 2 ^ e"
      using assms by (intro zdiv_mono1) simp_all
    moreover have "(2::int) ^ 1024 div 2 ^ e = 2 ^ (1024 - e)"
      using le by (simp add: power_diff)
    moreover have "(2::int) ^ 53 \<le> 2 ^ (1024 - e)"
      using le by (intro power_increasing) simp_all
    ultimately show False
      using up unfolding q_def by linarith
  qed
  have "(2::int) ^ 1024 = 2 ^ 52 * 2 ^ 972"
    by (simp add: power_add [symmetric])
  also have "\<dots> \<le> q * 2 ^ e"
    using lo e by (intro mult_mono power_increasing) simp_all
  finally have a: "2 ^ 1024 \<le> q * 2 ^ e" .
  have "q * 2 ^ e \<le> (q + 1) * 2 ^ e"
    by (simp add: algebra_simps)
  with a have b: "2 ^ 1024 \<le> (q + 1) * 2 ^ e" by linarith
  from big have "\<not> n < 9007199254740992" by simp
  then show ?thesis
    using a b unfolding roundDouble_def Let_def e_def [symmetric] q_def [symmetric]
    by (simp only: if_False if_True split: if_splits) auto
qed

lemma big_run: "2 ^ 1024 \<le> digitsValue (replicate 400 (CHR ''9''))"
  by code_simp

lemma digitsValue_nonneg: "0 \<le> digitsValue ds"
proof -
  have "0 \<le> a \<Longrightarrow> 0 \<le> foldl (\<lambda>n c. 10 * n + int (digitVal c)) a ds" for a
    by (induction ds arbitrary: a) simp_all
  then show ?thesis
    by (simp add: digitsValue_def)
qed

lemma parseInt_small: "digitsValue ds < 9007199254740992 \<Longrightarrow> parseInt ds = Finite (digitsValue ds)"
  by (simp add: parseInt_def roundDouble_small)

lemma parseInt_double:
  assumes "parseInt ds = Finite v"
  shows "0 \<le> v" and "roundDouble v = Finite v"
  using assms roundDouble_nonneg [OF digitsValue_nonneg, of ds v] roundDouble_idem [of "digitsValue ds" v]
  by (simp_all add: parseInt_def)

lemma parseInt_not_NaN: "parseInt ds \<noteq> NaN"
  by (simp add: parseInt_def roundDouble_def Let_def)

text \<open>The numbers and strings of some known cases.\<close>

lemma number_examples:
  "roundDouble 9007199254740993 = Finite 9007199254740992"
  "roundDouble 9007199254740995 = Finite 9007199254740996"
  "parseInt ''99999999999999999999'' = Finite 100000000000000000000"
  "addNumber (Finite 100000000000000000000) 12 = Finite 100000000000000000000"
  "numberToString (Finite 1000) = ''1000''"
  "numberToString (Finite 1152921504606846976) = ''1152921504606847000''"
  "numberToString (Finite 100000000000000000000) = ''100000000000000000000''"
  "numberToString (Finite 1180591620717411303424) = ''1.1805916207174113e+21''"
  "numberToString Infinity = ''Infinity''"
  "numberToString NaN = ''NaN''"
  by code_simp+

section \<open>Properties of \<open>parsePrice\<close>\<close>

lemma whitespace_no_dollar: "\<forall>c\<in>set s. isWhiteSpace c \<Longrightarrow> \<not> containsDollarDigit s"
  unfolding containsDollarDigit_def using dollar_not_space by auto

lemma parsePrice_double:
  assumes "parsePrice s = Finite v"
  shows "0 \<le> v" and "roundDouble v = Finite v"
proof -
  have "v = 0 \<or> (\<exists>ds. parseInt ds = Finite v)"
  proof (cases "s = [] \<or> freeTest s")
    case True
    with assms show ?thesis by (simp add: parsePrice_def)
  next
    case False
    show ?thesis
    proof (cases "search dollarAt s")
      case None
      with False assms show ?thesis by (simp add: parsePrice_def)
    next
      case (Some ds)
      with False assms have "parseInt ds = Finite v" by (simp add: parsePrice_def)
      then show ?thesis by blast
    qed
  qed
  then have "0 \<le> v \<and> roundDouble v = Finite v"
  proof
    assume "v = 0"
    then show ?thesis by (simp add: roundDouble_small)
  next
    assume "\<exists>ds. parseInt ds = Finite v"
    then show ?thesis using parseInt_double by blast
  qed
  then show "0 \<le> v" and "roundDouble v = Finite v"
    by simp_all
qed

text \<open>
  A run of digits whose value is \<open>2^53 + 1\<close> is read as \<open>2^53\<close>, which is not the integer
  the digits write; a run of 400 digits is read as \<open>Infinity\<close>, which is no integer.
\<close>

theorem parsePrice_rounds:
  "digitsValue ''9007199254740993'' = 9007199254740993 \<and>
   parsePrice ''$9007199254740993'' = Finite 9007199254740992 \<and>
   parsePrice (CHR ''$'' # replicate 400 (CHR ''9'')) = Infinity"
proof -
  have "digitsValue ''9007199254740993'' = 9007199254740993"
    "parsePrice ''$9007199254740993'' = Finite 9007199254740992"
    by code_simp+
  moreover have "\<not> freeTest (CHR ''$'' # replicate 400 (CHR ''9''))"
    by code_simp
  moreover have "search dollarAt (CHR ''$'' # replicate 400 (CHR ''9'')) =
      Some (replicate 400 (CHR ''9''))"
    by code_simp
  ultimately show ?thesis
    using roundDouble_overflow [OF big_run] by (simp add: parsePrice_def parseInt_def)
qed

text \<open>
  C6, as the code has it. \<open>parsePrice\<close> returns 0 when the string is empty, or all white
  space, or contains \<open>free\<close> in any mix of cases. Otherwise, when the string has a dollar
  sign followed by a digit, and the digits that follow the first such dollar sign write
  an integer below \<open>2^53\<close>, it returns that integer (\<open>pre\<close> has no dollar sign followed
  by a digit, \<open>ds\<close> is the whole run of digits). When there is no dollar sign followed by
  a digit it returns 0. The result is never negative and never NaN.
\<close>

theorem parsePrice_spec:
  "(s = [] \<or> (\<forall>c\<in>set s. isWhiteSpace c) \<or> containsFree s \<longrightarrow> parsePrice s = Finite 0) \<and>
   (\<not> containsFree s \<and> s = pre @ CHR ''$'' # ds @ post \<and> ds \<noteq> [] \<and> (\<forall>c\<in>set ds. isDigit c) \<and>
      (post = [] \<or> \<not> isDigit (hd post)) \<and> \<not> containsDollarDigit pre \<and>
      digitsValue ds < 9007199254740992 \<longrightarrow>
      parsePrice s = Finite (digitsValue ds)) \<and>
   (\<not> containsDollarDigit s \<longrightarrow> parsePrice s = Finite 0) \<and>
   (\<forall>v. parsePrice s = Finite v \<longrightarrow> 0 \<le> v) \<and> parsePrice s \<noteq> NaN"
proof (intro conjI impI allI)
  assume "s = [] \<or> (\<forall>c\<in>set s. isWhiteSpace c) \<or> containsFree s"
  then show "parsePrice s = Finite 0"
    using whitespace_no_dollar [of s]
    by (auto simp: parsePrice_def freeTest_iff search_dollar_None_iff [symmetric])
next
  assume h: "\<not> containsFree s \<and> s = pre @ CHR ''$'' # ds @ post \<and> ds \<noteq> [] \<and>
    (\<forall>c\<in>set ds. isDigit c) \<and> (post = [] \<or> \<not> isDigit (hd post)) \<and> \<not> containsDollarDigit pre \<and>
    digitsValue ds < 9007199254740992"
  then have found: "search dollarAt s = Some ds"
    using search_dollar_first [of ds post pre] by simp
  from h have "\<not> freeTest s" and "s \<noteq> []"
    by (auto simp: freeTest_iff)
  with found h show "parsePrice s = Finite (digitsValue ds)"
    by (simp add: parsePrice_def parseInt_small)
next
  assume "\<not> containsDollarDigit s"
  then show "parsePrice s = Finite 0"
    by (simp add: parsePrice_def search_dollar_None_iff [symmetric])
next
  fix v assume "parsePrice s = Finite v"
  then show "0 \<le> v" by (rule parsePrice_double)
next
  show "parsePrice s \<noteq> NaN"
    by (simp add: parsePrice_def parseInt_not_NaN split: option.splits)
qed

lemma no_free_example: "\<not> containsFree ''$45 adv / $60 door''"
  unfolding freeTest_iff [symmetric] by code_simp

lemma free_example: "containsFree ''FREE entry''"
  unfolding freeTest_iff [symmetric] by code_simp

lemma no_dollar_example: "\<not> containsDollarDigit ''TBA''"
  unfolding search_dollar_None_iff [symmetric] by code_simp

theorem parsePrice_spec_witness:
  "parsePrice ''$45 adv / $60 door'' = Finite 45 \<and> parsePrice ''FREE entry'' = Finite 0 \<and>
   parsePrice [] = Finite 0 \<and> parsePrice [CHR 0x20, CHR 0x09] = Finite 0 \<and>
   parsePrice ''TBA'' = Finite 0"
proof -
  have digits: "\<forall>c\<in>set ''45''. isDigit c" "\<not> isDigit (CHR 0x20)"
    by (simp_all add: isDigit_def codeUnit_def)
  have none: "\<not> containsDollarDigit []"
    by (simp add: containsDollarDigit_def)
  have val45: "digitsValue ''45'' = 45"
    by code_simp
  have "parsePrice ''$45 adv / $60 door'' = Finite (digitsValue ''45'')"
    using parsePrice_spec
      [of "''$45 adv / $60 door''" "[]" "''45''" "'' adv / $60 door''",
        THEN conjunct2, THEN conjunct1]
      no_free_example digits none val45
    by simp
  moreover have "parsePrice ''FREE entry'' = Finite 0"
    using parsePrice_spec [of "''FREE entry''", THEN conjunct1] free_example
    by simp
  moreover have "parsePrice [] = Finite 0"
    using parsePrice_spec [of "[]", THEN conjunct1] by simp
  moreover have "parsePrice [CHR 0x20, CHR 0x09] = Finite 0"
    using parsePrice_spec [of "[CHR 0x20, CHR 0x09]", THEN conjunct1]
    by (simp add: isWhiteSpace_def)
  moreover have "parsePrice ''TBA'' = Finite 0"
    using parsePrice_spec [of "''TBA''", THEN conjunct2, THEN conjunct2, THEN conjunct1]
      no_dollar_example
    by simp
  ultimately show ?thesis
    using val45 by simp
qed

lemma digits_no_free:
  assumes "\<forall>c\<in>set ds. isDigit c"
  shows "\<not> containsFree (CHR ''$'' # ds)"
proof
  assume "containsFree (CHR ''$'' # ds)"
  then obtain pre a rest where s: "CHR ''$'' # ds = pre @ a # rest"
    and a: "a = CHR ''F'' \<or> a = CHR ''f''"
    unfolding containsFree_def by blast
  then have "a \<in> set (CHR ''$'' # ds)"
    by (metis in_set_conv_decomp)
  with assms have "a = CHR ''$'' \<or> isDigit a" by auto
  with a show False
    by (auto simp: isDigit_def codeUnit_def)
qed

text \<open>
  From \<open>1e21\<close> on \<open>String\<close> writes an exponent, and the price read back is the digit before
  it.
\<close>

theorem parsePrice_exponent:
  "parsePrice ''$1000000000000000000000'' = Finite 1000000000000000000000 \<and>
   numberToString (Finite 1000000000000000000000) = ''1e+21'' \<and>
   parsePrice ''$1e+21'' = Finite 1"
  by code_simp

text \<open>
  C8, as the code has it. For every string \<open>s\<close> whose price is below \<open>1e21\<close>,
  \<open>parsePrice\<close> of a dollar sign followed by \<open>String(parsePrice(s))\<close> is \<open>parsePrice(s)\<close>
  again.
\<close>

theorem parsePrice_idempotent:
  "parsePrice s = Finite v \<and> v < 1000000000000000000000 \<longrightarrow>
     parsePrice (CHR ''$'' # numberToString (parsePrice s)) = parsePrice s"
proof
  assume h: "parsePrice s = Finite v \<and> v < 1000000000000000000000"
  then have v: "0 \<le> v" "roundDouble v = Finite v"
    using parsePrice_double [of s v] by simp_all
  from h have "v < 1000000000000000000000" by simp
  from positiveToString_roundtrip [OF v(1) this v(2)] obtain c where
    c: "positiveToString v = digitString c" "0 \<le> c" "roundDouble c = Finite v"
    by blast
  have str: "numberToString (parsePrice s) = digitString c"
    using h v(1) c(1) by (simp add: numberToString_def)
  have dd: "digitString c \<noteq> []" "\<forall>d\<in>set (digitString c). isDigit d"
    using digitString_digits [OF c(2)] by simp_all
  have "search dollarAt ([] @ CHR ''$'' # digitString c @ []) = Some (digitString c)"
    using dd by (intro search_dollar_first) (simp_all add: containsDollarDigit_def)
  moreover have "\<not> freeTest (CHR ''$'' # digitString c)"
    using digits_no_free [OF dd(2)] by (simp add: freeTest_iff)
  moreover have "parseInt (digitString c) = Finite v"
    using c(2,3) by (simp add: parseInt_def digitsValue_digitString)
  ultimately have "parsePrice (CHR ''$'' # digitString c) = Finite v"
    by (simp add: parsePrice_def)
  with h str show "parsePrice (CHR ''$'' # numberToString (parsePrice s)) = parsePrice s"
    by simp
qed

theorem parsePrice_idempotent_witness:
  "parsePrice ''$45 adv / $60 door'' = Finite 45 \<and> numberToString (Finite 45) = ''45'' \<and>
   parsePrice ''$45'' = Finite 45 \<and>
   parsePrice ''$1152921504606846977'' = Finite 1152921504606846976 \<and>
   numberToString (Finite 1152921504606846976) = ''1152921504606847000'' \<and>
   parsePrice ''$1152921504606847000'' = Finite 1152921504606846976"
proof -
  have a: "parsePrice ''$45 adv / $60 door'' = Finite 45"
    "parsePrice ''$1152921504606846977'' = Finite 1152921504606846976"
    by code_simp+
  have b: "numberToString (Finite 45) = ''45''"
    "numberToString (Finite 1152921504606846976) = ''1152921504606847000''"
    by code_simp+
  from parsePrice_idempotent [of "''$45 adv / $60 door''" 45]
    parsePrice_idempotent [of "''$1152921504606846977''" 1152921504606846976] a b
  show ?thesis by simp
qed

section \<open>The start hour\<close>

lemma matches_am_iff: "matchesIgnoreCase ''am'' x \<longleftrightarrow> isAm (take 2 x)"
proof -
  have can: "map canonicalize ''am'' = ''AM''"
    by code_simp
  show ?thesis
  proof (cases x)
    case Nil
    then show ?thesis by (simp add: matchesIgnoreCase_def isAm_def)
  next
    case (Cons a x1)
    show ?thesis
    proof (cases x1)
      case Nil
      with Cons show ?thesis by (simp add: matchesIgnoreCase_def isAm_def)
    next
      case (Cons b x2)
      with \<open>x = a # x1\<close> have "x = a # b # x2" by simp
      then show ?thesis
        unfolding matchesIgnoreCase_def can isAm_def
        by (auto simp: canonicalize_letters)
    qed
  qed
qed

lemma matches_pm_iff: "matchesIgnoreCase ''pm'' x \<longleftrightarrow> isPm (take 2 x)"
proof -
  have can: "map canonicalize ''pm'' = ''PM''"
    by code_simp
  show ?thesis
  proof (cases x)
    case Nil
    then show ?thesis by (simp add: matchesIgnoreCase_def isPm_def)
  next
    case (Cons a x1)
    show ?thesis
    proof (cases x1)
      case Nil
      with Cons show ?thesis by (simp add: matchesIgnoreCase_def isPm_def)
    next
      case (Cons b x2)
      with \<open>x = a # x1\<close> have "x = a # b # x2" by simp
      then show ?thesis
        unfolding matchesIgnoreCase_def can isPm_def
        by (auto simp: canonicalize_letters)
    qed
  qed
qed

lemma isMeridiem_iff: "isMeridiem x \<longleftrightarrow> isAm (take 2 x) \<or> isPm (take 2 x)"
  by (simp add: isMeridiem_def matches_am_iff matches_pm_iff)

lemma meridiem_shape:
  assumes "isAm m \<or> isPm m"
  shows "length m = 2" and "\<not> isDigit (hd m)" and "hd m \<noteq> CHR '':''" and "m \<noteq> []"
  using assms by (auto simp: isAm_def isPm_def isDigit_def codeUnit_def)

lemma toLowerCase_am:
  assumes "isAm m"
  shows "toLowerCase m = ''am''"
proof -
  have "toLowerCase ''am'' = ''am''" "toLowerCase ''aM'' = ''am''"
    "toLowerCase ''Am'' = ''am''" "toLowerCase ''AM'' = ''am''"
    by code_simp+
  with assms show ?thesis
    by (auto simp: isAm_def)
qed

lemma toLowerCase_pm:
  assumes "isPm m"
  shows "toLowerCase m = ''pm''"
proof -
  have "toLowerCase ''pm'' = ''pm''" "toLowerCase ''pM'' = ''pm''"
    "toLowerCase ''Pm'' = ''pm''" "toLowerCase ''PM'' = ''pm''"
    by code_simp+
  with assms show ?thesis
    by (auto simp: isPm_def)
qed

lemma colon_not_digit: "\<not> isDigit (CHR '':'')"
  by (simp add: isDigit_def codeUnit_def)

lemma takeWhile_run:
  assumes "\<forall>c\<in>set ds. P c" and "r = [] \<or> \<not> P (hd r)"
  shows "takeWhile P (ds @ r) = ds" and "dropWhile P (ds @ r) = r"
proof -
  have "takeWhile P r = []" "dropWhile P r = r"
    using assms(2) by (cases r; auto)+
  with assms(1) show "takeWhile P (ds @ r) = ds" "dropWhile P (ds @ r) = r"
    by (simp_all add: takeWhile_append2 dropWhile_append2)
qed

lemma startMatch_intro:
  assumes "startsWithTime t ds m"
  shows "startMatch t = Some (ds, m)"
proof -
  from assms have ds: "ds \<noteq> []" "\<forall>c\<in>set ds. isDigit c" and m: "isAm m \<or> isPm m"
    by (auto simp: startsWithTime_def)
  note sh = meridiem_shape [OF m]
  have tk: "take 2 (m @ rest) = m" for rest
    using sh(1) by simp
  have mer: "isMeridiem (m @ rest)" for rest
    using m unfolding isMeridiem_iff tk .
  from assms obtain rest where
    "t = ds @ m @ rest \<or>
      (\<exists>mins. mins \<noteq> [] \<and> (\<forall>c\<in>set mins. isDigit c) \<and> t = ds @ CHR '':'' # mins @ m @ rest)"
    by (auto simp: startsWithTime_def)
  then show ?thesis
  proof
    assume t: "t = ds @ m @ rest"
    obtain a m' where am: "m = a # m'" using sh(4) by (cases m) auto
    with sh have a: "\<not> isDigit a" "a \<noteq> CHR '':''" by simp_all
    have "takeWhile isDigit t = ds" "dropWhile isDigit t = m @ rest"
      unfolding t using ds(2) a am by (simp_all add: takeWhile_run)
    then show ?thesis
      using ds(1) mer [of rest] tk [of rest] a am
      by (simp add: startMatch_def Let_def)
  next
    assume "\<exists>mins. mins \<noteq> [] \<and> (\<forall>c\<in>set mins. isDigit c) \<and> t = ds @ CHR '':'' # mins @ m @ rest"
    then obtain mins where mins: "mins \<noteq> []" "\<forall>c\<in>set mins. isDigit c"
      and t: "t = ds @ CHR '':'' # mins @ m @ rest"
      by blast
    have 1: "takeWhile isDigit t = ds" "dropWhile isDigit t = CHR '':'' # mins @ m @ rest"
      unfolding t using ds(2) colon_not_digit by (simp_all add: takeWhile_run)
    have nd: "m @ rest = [] \<or> \<not> isDigit (hd (m @ rest))"
      using sh by simp
    note 2 = takeWhile_run [OF mins(2) nd]
    show ?thesis
      using ds(1) mins(1) mer [of rest] tk [of rest]
      by (simp add: startMatch_def Let_def 1 2)
  qed
qed

lemma digits_takeWhile: "\<forall>c\<in>set (takeWhile isDigit t). isDigit c"
  by (auto dest: set_takeWhileD)

lemma startMatch_elim:
  assumes "startMatch t = Some (ds, m)"
  shows "startsWithTime t ds m"
proof -
  let ?r = "dropWhile isDigit t"
  from assms have h: "takeWhile isDigit t \<noteq> []"
    by (auto simp: startMatch_def Let_def split: if_splits)
  have t: "t = takeWhile isDigit t @ ?r"
    by simp
  have cut: "isMeridiem x \<Longrightarrow> x = take 2 x @ drop 2 x \<and> (isAm (take 2 x) \<or> isPm (take 2 x))" for x
    by (simp add: isMeridiem_iff)
  from assms h consider
    (minutes) r2 where "?r = CHR '':'' # r2" "takeWhile isDigit r2 \<noteq> []"
      "isMeridiem (dropWhile isDigit r2)" "ds = takeWhile isDigit t"
      "m = take 2 (dropWhile isDigit r2)"
  | (plain) "isMeridiem ?r" "ds = takeWhile isDigit t" "m = take 2 ?r"
    by (auto simp: startMatch_def Let_def split: if_splits list.splits option.splits)
  then show ?thesis
  proof cases
    case minutes
    let ?x = "dropWhile isDigit r2"
    let ?mins = "takeWhile isDigit r2"
    have "r2 = ?mins @ ?x"
      by simp
    with minutes(1) cut [OF minutes(3)] minutes(5) have "?r = CHR '':'' # ?mins @ m @ drop 2 ?x"
      by metis
    with t minutes(4) have "t = ds @ CHR '':'' # ?mins @ m @ drop 2 ?x"
      by metis
    moreover have "ds \<noteq> []" "\<forall>c\<in>set ds. isDigit c" "\<forall>c\<in>set ?mins. isDigit c"
      using minutes(4) h by (simp_all add: digits_takeWhile)
    moreover have "isAm m \<or> isPm m"
      using cut [OF minutes(3)] minutes(5) by simp
    ultimately show ?thesis
      unfolding startsWithTime_def using minutes(2) by blast
  next
    case plain
    have "t = ds @ m @ drop 2 ?r"
      using t plain cut [OF plain(1)] by metis
    moreover have "ds \<noteq> []" "\<forall>c\<in>set ds. isDigit c"
      using plain(2) h by (simp_all add: digits_takeWhile)
    moreover have "isAm m \<or> isPm m"
      using cut [OF plain(1)] plain(3) by simp
    ultimately show ?thesis
      unfolding startsWithTime_def by blast
  qed
qed

lemma startMatch_iff: "startMatch t = Some (ds, m) \<longleftrightarrow> startsWithTime t ds m"
  using startMatch_intro startMatch_elim by blast

lemma startMatch_None_iff: "startMatch t = None \<longleftrightarrow> (\<forall>ds m. \<not> startsWithTime t ds m)"
  using startMatch_iff [of t] by (cases "startMatch t") auto

lemma hourOf_am:
  "isAm m \<Longrightarrow> digitsValue ds \<le> 12 \<Longrightarrow>
     hourOf ds m =
       Finite (if 1 \<le> digitsValue ds \<and> digitsValue ds \<le> 6 then digitsValue ds + 24
               else if digitsValue ds = 12 then 0 else digitsValue ds)"
  by (simp add: hourOf_def Let_def toLowerCase_am parseInt_small addNumber_def numGe_def
      numLe_def roundDouble_small)

lemma hourOf_pm:
  "isPm m \<Longrightarrow> digitsValue ds \<le> 12 \<Longrightarrow>
     hourOf ds m = Finite (if digitsValue ds = 12 then 12 else digitsValue ds + 12)"
  by (simp add: hourOf_def Let_def toLowerCase_pm parseInt_small addNumber_def
      roundDouble_small)

lemma startHourOf_matched: "startsWithTime t ds m \<Longrightarrow> startHourOf t = hourOf ds m"
  by (simp add: startHourOf_def startMatch_intro)

section \<open>The parser on the example row\<close>

lemma parseRow_sampleRow: "parseRow sampleRow = Some sampleRaw"
  by code_simp

lemma parseEvents_map_filter: "parseEvents rows = List.map_filter parseRow rows"
proof -
  have "foldl (\<lambda>raw cells. case parseRow cells of None \<Rightarrow> raw | Some e \<Rightarrow> raw @ [e]) acc rows
          = acc @ List.map_filter parseRow rows" for acc
    by (induction rows arbitrary: acc) (auto simp: List.map_filter_simps split: option.splits)
  from this [of "[]"] show ?thesis by (simp add: parseEvents_def)
qed

lemma parseEvents_sample: "parseEvents [sampleRow] = [sampleRaw]"
  by (simp add: parseEvents_map_filter List.map_filter_simps parseRow_sampleRow)

section \<open>The date window\<close>

text \<open>
  Rows of fewer than four cells, rows whose first cell has no month-and-day token, and
  rows whose token gives a valid Date outside the window are dropped; the window is
  18 March to 1 April 2026, both days included.
\<close>

lemma row_without_date_rejected:
  "dateMatch (trim (cellText (cells ! 0))) = None \<Longrightarrow> parseRow cells = None"
  by (simp add: parseRow_def)

lemma row_outside_window_rejected:
  assumes "dateMatch (trim (cellText (cells ! 0))) = Some (name, digits)"
      and "dateLess (eventDateOf name digits) RANGE_START \<or> dateLess RANGE_END (eventDateOf name digits)"
  shows "parseRow cells = None"
  using assms by (simp add: parseRow_def)

lemma window_days:
  "RANGE_START = Some (MakeDay 2 18 * msPerDay)" "RANGE_END = Some (MakeDay 3 1 * msPerDay)"
  by code_simp+

lemma valid_date_outside_window:
  assumes "newDate month date = Some t"
  shows "dateLess (Some t) RANGE_START \<longleftrightarrow> MakeDay month date < MakeDay 2 18"
    and "dateLess RANGE_END (Some t) \<longleftrightarrow> MakeDay 3 1 < MakeDay month date"
  using assms
  by (auto simp: window_days dateLess_def newDate_def TimeClip_def msPerDay_def split: if_splits)

lemma short_row_rejected: "length cells < 4 \<Longrightarrow> parseRow cells = None"
  by (simp add: parseRow_def)

text \<open>
  C5. A row whose month-and-day token lies outside the window is expected to give no
  record. The token \<open>Mar 200000000\<close> lies after 1 April 2026, the end of the window.
  Its Date is beyond the range a Date can hold, so it is invalid; both comparisons with
  the window are then false, the row is not dropped, and its record carries the day
  key \<open>2026-NaN-NaN\<close>.
\<close>

theorem invalid_date_row_kept:
  "dateMatch ''Fri: Mar 200000000 (10pm-5am)'' = Some (''Mar'', ''200000000'') \<and>
   parseInt ''200000000'' = Finite 200000000 \<and> MakeDay 3 1 < MakeDay 2 200000000 \<and>
   eventDateOf ''Mar'' ''200000000'' = None \<and>
   map day (parseEvents [dateRow ''Fri: Mar 200000000 (10pm-5am)'']) = [''2026-NaN-NaN'']"
  by code_simp

lemma window_examples:
  "parseEvents [dateRow ''Tue: Mar 17 (10pm-5am)'', dateRow ''Thu: Apr 2 (10pm-5am)'',
                dateRow ''Daily (10pm-5am)''] = []"
  "map day (parseEvents [dateRow ''Wed: Mar 18 (10pm-5am)'', dateRow ''Wed: Apr 1 (10pm-5am)''])
     = [''2026-03-18'', ''2026-04-01'']"
  by code_simp+

section \<open>The start hour of a record\<close>

lemma set_map_filter: "set (List.map_filter f xs) = {y. \<exists>x\<in>set xs. f x = Some y}"
  by (induction xs) (auto simp: List.map_filter_simps split: option.splits)

lemma parseEvents_set: "set (parseEvents rows) = {e. \<exists>cells\<in>set rows. parseRow cells = Some e}"
  by (simp add: parseEvents_map_filter set_map_filter)

lemma meridiem_of_match: "startsWithTime t ds m \<Longrightarrow> isAm m \<or> isPm m"
  by (simp add: startsWithTime_def)

lemma am_not_pm: "isAm m \<Longrightarrow> isPm m \<Longrightarrow> False"
  by (auto simp: isAm_def isPm_def)

lemma parseRow_startHour: "parseRow cells = Some e \<Longrightarrow> startHour e = startHourOf (timeRaw e)"
  by (auto simp: parseRow_def Let_def split: if_splits option.splits)

lemma parseEvents_startHour: "e \<in> set (parseEvents rows) \<Longrightarrow> startHour e = startHourOf (timeRaw e)"
  by (auto simp: parseEvents_set parseRow_startHour)

text \<open>An hour too long for a double is rounded, and adding 12 to it changes nothing.\<close>

lemma long_hour_example:
  "startHourOf ''99999999999999999999pm'' = Finite 100000000000000000000"
  "startHourOf ''9007199254740993am'' = Finite 9007199254740992"
  by code_simp+

text \<open>
  The hour digits are not checked to be a clock hour: \<open>13pm\<close> matches and gives 25,
  which is neither one of the listed conversions nor within 0 to 23.
\<close>

theorem hour_above_12_counterexample:
  "startMatch ''13pm-2am'' = Some (''13'', ''pm'') \<and> digitsValue ''13'' = 13 \<and>
   map (\<lambda>e. (timeRaw e, startHour e)) (parseEvents [hourRow ''13pm-2am''])
     = [(''13pm-2am'', Finite 25)]"
  by code_simp

text \<open>
  C1, as the code has it. Every record holds the conversion of the start of its time
  text. When the text starts with an hour, optional minutes and a meridiem: \<open>am\<close> hours
  1 to 6 give \<open>hour mod 12 + 24\<close>, that is 25 to 30; \<open>12am\<close> gives 0; \<open>pm\<close> hours 1 to 11
  give \<open>hour + 12\<close>; \<open>12pm\<close> gives 12; the other hours up to 12 stay within 0 to 23.
  A text that does not start that way gives 0.
\<close>

theorem startHour_conversion:
  "(startsWithTime t ds m \<longrightarrow>
      (isAm m \<and> 1 \<le> digitsValue ds \<and> digitsValue ds \<le> 6 \<longrightarrow>
         startHourOf t = Finite (digitsValue ds mod 12 + 24) \<and>
         25 \<le> digitsValue ds mod 12 + 24 \<and> digitsValue ds mod 12 + 24 \<le> 30) \<and>
      (isAm m \<and> digitsValue ds = 12 \<longrightarrow> startHourOf t = Finite 0) \<and>
      (isPm m \<and> 1 \<le> digitsValue ds \<and> digitsValue ds \<le> 11 \<longrightarrow>
         startHourOf t = Finite (digitsValue ds + 12)) \<and>
      (isPm m \<and> digitsValue ds = 12 \<longrightarrow> startHourOf t = Finite 12) \<and>
      (\<not> (isAm m \<and> 1 \<le> digitsValue ds \<and> digitsValue ds \<le> 6) \<and> digitsValue ds \<le> 12 \<longrightarrow>
         (\<exists>h. startHourOf t = Finite h \<and> 0 \<le> h \<and> h \<le> 23))) \<and>
   ((\<forall>ds m. \<not> startsWithTime t ds m) \<longrightarrow> startHourOf t = Finite 0) \<and>
   (\<forall>e\<in>set (parseEvents rows). startHour e = startHourOf (timeRaw e))"
proof (intro conjI impI ballI)
  assume "\<forall>ds m. \<not> startsWithTime t ds m"
  then have "startMatch t = None"
    by (simp add: startMatch_None_iff)
  then show "startHourOf t = Finite 0"
    by (simp add: startHourOf_def)
next
  fix e assume "e \<in> set (parseEvents rows)"
  then show "startHour e = startHourOf (timeRaw e)"
    by (rule parseEvents_startHour)
qed (use digitsValue_nonneg [of ds] in
      \<open>auto simp: startHourOf_matched hourOf_am hourOf_pm dest: meridiem_of_match am_not_pm\<close>)

lemma time_examples:
  "startsWithTime ''5am-9am'' ''5'' ''am''"
  "startsWithTime ''12AM'' ''12'' ''AM''"
  "startsWithTime ''10pm-5am'' ''10'' ''pm''"
  "startsWithTime ''12pm-11pm'' ''12'' ''pm''"
  "startsWithTime ''9:30am'' ''9'' ''am''"
  unfolding startMatch_iff [symmetric] by code_simp+

lemma no_time_example: "\<forall>ds m. \<not> startsWithTime ''noon'' ds m"
  unfolding startMatch_None_iff [symmetric] by code_simp

lemma digitsValue_examples:
  "digitsValue ''5'' = 5" "digitsValue ''12'' = 12" "digitsValue ''10'' = 10"
  "digitsValue ''9'' = 9"
  by code_simp+

lemma meridiem_examples:
  "isAm ''am''" "isAm ''AM''" "isPm ''pm''" "\<not> isAm ''pm''" "\<not> isPm ''am''" "\<not> isPm ''AM''"
  by (simp_all add: isAm_def isPm_def)

theorem startHour_conversion_witness:
  "startHourOf ''5am-9am'' = Finite 29 \<and> startHourOf ''12AM'' = Finite 0 \<and>
   startHourOf ''10pm-5am'' = Finite 22 \<and> startHourOf ''12pm-11pm'' = Finite 12 \<and>
   (\<exists>h. startHourOf ''9:30am'' = Finite h \<and> 0 \<le> h \<and> h \<le> 23) \<and>
   startHourOf ''noon'' = Finite 0 \<and> startHour sampleRaw = startHourOf (timeRaw sampleRaw)"
proof -
  note matched = startHour_conversion [THEN conjunct1, THEN mp]
  note unmatched = startHour_conversion [THEN conjunct2, THEN conjunct1, THEN mp]
  note records = startHour_conversion [THEN conjunct2, THEN conjunct2, THEN bspec]
  have "startHourOf ''5am-9am'' = Finite 29"
    using matched [OF time_examples(1)] by (simp add: digitsValue_examples meridiem_examples)
  moreover have "startHourOf ''12AM'' = Finite 0"
    using matched [OF time_examples(2)] by (simp add: digitsValue_examples meridiem_examples)
  moreover have "startHourOf ''10pm-5am'' = Finite 22"
    using matched [OF time_examples(3)] by (simp add: digitsValue_examples meridiem_examples)
  moreover have "startHourOf ''12pm-11pm'' = Finite 12"
    using matched [OF time_examples(4)] by (simp add: digitsValue_examples meridiem_examples)
  moreover have "\<exists>h. startHourOf ''9:30am'' = Finite h \<and> 0 \<le> h \<and> h \<le> 23"
    using matched [OF time_examples(5)] by (simp add: digitsValue_examples meridiem_examples)
  moreover have "startHourOf ''noon'' = Finite 0"
    using no_time_example by (rule unmatched)
  moreover have "startHour sampleRaw = startHourOf (timeRaw sampleRaw)"
    by (rule records [of _ "[sampleRow]"]) (simp add: parseEvents_sample)
  ultimately show ?thesis
    by simp
qed

text \<open>
  Records with a start hour outside the two ranges: \<open>19pm\<close> gives 31 and \<open>24am\<close> gives 24.
\<close>

theorem startHour_outside_counterexample:
  "map (\<lambda>e. (timeRaw e, startHour e)) (parseEvents [hourRow ''19pm-2am'', hourRow ''24am''])
     = [(''19pm-2am'', Finite 31), (''24am'', Finite 24)]"
  by code_simp

text \<open>
  C9, as the code has it. Every record whose time text does not start with an hour and
  a meridiem, or starts with an hour of at most 12, has its \<open>startHour\<close> in 0 to 23 or in
  25 to 30; in particular it is not 24 and not above 30.
\<close>

theorem startHour_range:
  "\<forall>e\<in>set (parseEvents rows).
     (\<forall>ds m. startsWithTime (timeRaw e) ds m \<longrightarrow> digitsValue ds \<le> 12) \<longrightarrow>
     startHour e \<in> Finite ` ({0..23} \<union> {25..30})"
proof (intro ballI impI)
  fix e
  assume e: "e \<in> set (parseEvents rows)"
    and small: "\<forall>ds m. startsWithTime (timeRaw e) ds m \<longrightarrow> digitsValue ds \<le> 12"
  have eq: "startHour e = startHourOf (timeRaw e)"
    using e by (rule parseEvents_startHour)
  show "startHour e \<in> Finite ` ({0..23} \<union> {25..30})"
  proof (cases "startMatch (timeRaw e)")
    case None
    then show ?thesis by (simp add: eq startHourOf_def)
  next
    case (Some p)
    obtain ds m where p: "p = (ds, m)" by (cases p)
    with Some have sw: "startsWithTime (timeRaw e) ds m"
      by (simp add: startMatch_iff)
    with small have le: "digitsValue ds \<le> 12" by blast
    from sw have "isAm m \<or> isPm m" by (rule meridiem_of_match)
    then show ?thesis
      using le digitsValue_nonneg [of ds]
      by (auto simp: eq startHourOf_matched [OF sw] hourOf_am hourOf_pm split: if_splits)
  qed
qed

theorem startHour_range_witness:
  "sampleRaw \<in> set (parseEvents [sampleRow]) \<and> timeRaw sampleRaw = ''10pm-5am'' \<and>
   startHour sampleRaw = Finite 22 \<and> startHour sampleRaw \<in> Finite ` ({0..23} \<union> {25..30})"
proof -
  have mem: "sampleRaw \<in> set (parseEvents [sampleRow])"
    by (simp add: parseEvents_sample)
  have t: "timeRaw sampleRaw = ''10pm-5am''" and h: "startHour sampleRaw = Finite 22"
    by (simp_all add: sampleRaw_def)
  have "startMatch ''10pm-5am'' = Some (''10'', ''pm'')"
    by code_simp
  then have "\<forall>ds m. startsWithTime (timeRaw sampleRaw) ds m \<longrightarrow> digitsValue ds \<le> 12"
    by (auto simp: t startMatch_iff [symmetric] digitsValue_examples)
  with startHour_range [of "[sampleRow]"] mem
  have "startHour sampleRaw \<in> Finite ` ({0..23} \<union> {25..30})"
    by blast
  with mem t h show ?thesis
    by simp
qed

section \<open>The description cell of a record\<close>

lemma occursIn_Cons:
  "\<not> prefix needle (c # cs) \<Longrightarrow> occursIn needle (c # cs) \<longleftrightarrow> occursIn needle cs"
  unfolding occursIn_def prefix_def
  by (auto simp: Cons_eq_append_conv)

lemma indexFrom_spec:
  "0 \<le> i \<Longrightarrow>
     (if occursIn needle s then i \<le> indexFrom needle s i else indexFrom needle s i = - 1)"
proof (induction s arbitrary: i)
  case Nil
  then show ?case by (auto simp: occursIn_def)
next
  case (Cons c cs)
  show ?case
  proof (cases "prefix needle (c # cs)")
    case True
    then have "occursIn needle (c # cs)"
      unfolding occursIn_def prefix_def by (metis append_Nil)
    with True show ?thesis by simp
  next
    case False
    with Cons.IH [of "i + 1"] Cons.prems show ?thesis
      by (auto simp: occursIn_Cons)
  qed
qed

lemma indexOf_minus1_iff: "indexOf needle s = - 1 \<longleftrightarrow> \<not> occursIn needle s"
  using indexFrom_spec [of 0 needle s] by (auto simp: indexOf_def split: if_splits)

lemma trim_substring: "\<exists>a b. s = a @ trim s @ b"
proof -
  let ?x = "dropWhile isWhiteSpace s"
  have "s = takeWhile isWhiteSpace s @ ?x"
    by simp
  moreover have "rev ?x = takeWhile isWhiteSpace (rev ?x) @ dropWhile isWhiteSpace (rev ?x)"
    by simp
  then have "?x = trim s @ rev (takeWhile isWhiteSpace (rev ?x))"
    unfolding trim_def by (metis rev_append rev_rev_ident)
  ultimately show ?thesis by metis
qed

lemma occursIn_trim: "occursIn needle (trim s) \<Longrightarrow> occursIn needle s"
proof -
  assume "occursIn needle (trim s)"
  then obtain pre post where t: "trim s = pre @ needle @ post"
    unfolding occursIn_def by blast
  obtain a b where "s = a @ trim s @ b"
    using trim_substring by blast
  with t have "s = (a @ pre) @ needle @ (post @ b)"
    by simp
  then show ?thesis
    unfolding occursIn_def by blast
qed

lemma no_venue_part:
  "venueOf [] = []" "areaOf [] = []" "genresOf [] = []"
  by (simp_all add: venueOf_def areaOf_def genresOf_def venueAreaMatch_def trim_def)

lemma parseRow_description:
  assumes "parseRow cells = Some e"
  shows "titlePart e = titlePartOf (trim (cellText (cells ! 1)))"
    and "venue e = venueOf (venuePartOf (trim (cellText (cells ! 1))))"
    and "area e = areaOf (venuePartOf (trim (cellText (cells ! 1))))"
    and "genres e = genresOf (venuePartOf (trim (cellText (cells ! 1))))"
  using assms by (auto simp: parseRow_def Let_def split: if_splits option.splits)

text \<open>
  C7. Every row that the parser keeps and whose description cell has no \<open>space, at sign,
  space\<close> in its text gives a record, in the output, whose \<open>titlePart\<close> is the whole
  trimmed text of the cell, whose \<open>venue\<close> and \<open>area\<close> are empty strings and whose \<open>genres\<close>
  is the empty list.
\<close>

theorem no_separator_row:
  "\<forall>cells\<in>set rows. \<forall>e. parseRow cells = Some e \<and> \<not> occursIn '' @ '' (cellText (cells ! 1)) \<longrightarrow>
     e \<in> set (parseEvents rows) \<and> titlePart e = trim (cellText (cells ! 1)) \<and>
     venue e = [] \<and> area e = [] \<and> genres e = []"
proof (intro ballI allI impI)
  fix cells e
  assume cells: "cells \<in> set rows"
    and h: "parseRow cells = Some e \<and> \<not> occursIn '' @ '' (cellText (cells ! 1))"
  let ?eventCell = "trim (cellText (cells ! 1))"
  from h have "\<not> occursIn '' @ '' ?eventCell"
    using occursIn_trim by blast
  then have atIdx: "indexOf '' @ '' ?eventCell = - 1"
    by (simp add: indexOf_minus1_iff)
  then have "titlePartOf ?eventCell = ?eventCell" "venuePartOf ?eventCell = []"
    by (simp_all add: titlePartOf_def venuePartOf_def)
  with h parseRow_description [of cells e] have
    "titlePart e = ?eventCell \<and> venue e = [] \<and> area e = [] \<and> genres e = []"
    by (simp add: no_venue_part)
  moreover from cells h have "e \<in> set (parseEvents rows)"
    by (auto simp: parseEvents_set)
  ultimately show "e \<in> set (parseEvents rows) \<and> titlePart e = ?eventCell \<and>
     venue e = [] \<and> area e = [] \<and> genres e = []"
    by simp
qed

lemma parseRow_plainRow: "parseRow plainRow = Some plainRaw"
  by code_simp

theorem no_separator_row_witness:
  "\<not> occursIn '' @ '' (cellText (plainRow ! 1)) \<and> parseRow plainRow = Some plainRaw \<and>
   plainRaw \<in> set (parseEvents [plainRow]) \<and>
   titlePart plainRaw = trim (cellText (plainRow ! 1)) \<and>
   titlePart plainRaw = ''Ultra Music Festival'' \<and>
   venue plainRaw = [] \<and> area plainRaw = [] \<and> genres plainRaw = []"
proof -
  have "indexOf '' @ '' (cellText (plainRow ! 1)) = - 1"
    by code_simp
  then have no: "\<not> occursIn '' @ '' (cellText (plainRow ! 1))"
    by (simp add: indexOf_minus1_iff)
  have "plainRow \<in> set [plainRow]"
    by simp
  from no_separator_row [THEN bspec, OF this, THEN spec, of plainRaw] parseRow_plainRow no
  have "plainRaw \<in> set (parseEvents [plainRow]) \<and>
    titlePart plainRaw = trim (cellText (plainRow ! 1)) \<and>
    venue plainRaw = [] \<and> area plainRaw = [] \<and> genres plainRaw = []"
    by blast
  moreover have "titlePart plainRaw = ''Ultra Music Festival''"
    by (simp add: plainRaw_def)
  ultimately show ?thesis
    using no parseRow_plainRow by blast
qed

section \<open>Properties of merging\<close>



lemma mergeFrom_nth:
  "mergeFrom i raws enriched = Inr evs \<Longrightarrow> k < length raws \<Longrightarrow>
     \<exists>el. element enriched (i + k) = Inr el \<and> evs ! k = mergeOne (raws ! k) el"
proof (induction raws arbitrary: i evs k)
  case Nil
  then show ?case by simp
next
  case (Cons raw rest)
  from Cons.prems(1) obtain el evs' where
    el: "element enriched i = Inr el" and
    rest: "mergeFrom (Suc i) rest enriched = Inr evs'" and
    evs: "evs = mergeOne raw el # evs'"
    by (auto split: sum.splits)
  show ?case
  proof (cases k)
    case 0
    with el evs show ?thesis by simp
  next
    case (Suc j)
    with Cons.prems(2) have "j < length rest" by simp
    from Cons.IH [OF rest this] Suc evs show ?thesis by simp
  qed
qed




lemma mergeOne_raw_fields:
  "ev_day (mergeOne raw el) = day raw"
  "ev_venue (mergeOne raw el) = venue raw"
  "ev_area (mergeOne raw el) = area raw"
  "ev_startHour (mergeOne raw el) = startHour raw"
  "ev_timeDisplay (mergeOne raw el) = timeRaw raw"
  "ev_genres (mergeOne raw el) = genres raw"
  "ev_priceRaw (mergeOne raw el) = parsePrice (priceStr raw)"
  "ev_priceDisplay (mergeOne raw el) = (if priceStr raw \<noteq> [] then priceStr raw else ''TBA'')"
  "ev_age (mergeOne raw el) = age raw"
  "ev_link (mergeOne raw el) = link raw"
  by (simp_all add: mergeOne_def)

lemma mergeOne_type:
  "ev_type (mergeOne raw el) =
     (if truthy (optionalProperty el ''type'') then optionalProperty el ''type'' else JStr ''night'')"
  by (simp add: mergeOne_def orElse_def)

lemma merge_sample: "mergeEvents [sampleRaw] sampleEnriched = Inr [sampleEvent]"
  by code_simp

lemma merge_sample_number: "mergeEvents [sampleRaw] (JNum 7) = Inr [fallbackEvent]"
  by code_simp

text \<open>
  C10. Whatever two enrichment responses the same raw batch is merged with, the events
  at each index agree on \<open>day\<close>, \<open>venue\<close>, \<open>area\<close>, \<open>startHour\<close>, \<open>timeDisplay\<close>, \<open>genres\<close>,
  \<open>priceRaw\<close>, \<open>priceDisplay\<close>, \<open>age\<close> and \<open>link\<close>: each of these is copied or computed
  from the raw record at that index alone. Only \<open>name\<close>, \<open>artists\<close> and \<open>type\<close> are left
  for the response to decide.
\<close>

theorem merge_frame:
  assumes "mergeEvents rawEvents enriched1 = Inr evs1"
      and "mergeEvents rawEvents enriched2 = Inr evs2"
      and "i < length rawEvents"
  shows "ev_day (evs1 ! i) = day (rawEvents ! i) \<and> ev_day (evs2 ! i) = ev_day (evs1 ! i) \<and>
         ev_venue (evs1 ! i) = venue (rawEvents ! i) \<and> ev_venue (evs2 ! i) = ev_venue (evs1 ! i) \<and>
         ev_area (evs1 ! i) = area (rawEvents ! i) \<and> ev_area (evs2 ! i) = ev_area (evs1 ! i) \<and>
         ev_startHour (evs1 ! i) = startHour (rawEvents ! i) \<and>
         ev_startHour (evs2 ! i) = ev_startHour (evs1 ! i) \<and>
         ev_timeDisplay (evs1 ! i) = timeRaw (rawEvents ! i) \<and>
         ev_timeDisplay (evs2 ! i) = ev_timeDisplay (evs1 ! i) \<and>
         ev_genres (evs1 ! i) = genres (rawEvents ! i) \<and>
         ev_genres (evs2 ! i) = ev_genres (evs1 ! i) \<and>
         ev_priceRaw (evs1 ! i) = parsePrice (priceStr (rawEvents ! i)) \<and>
         ev_priceRaw (evs2 ! i) = ev_priceRaw (evs1 ! i) \<and>
         ev_priceDisplay (evs1 ! i) =
           (if priceStr (rawEvents ! i) \<noteq> [] then priceStr (rawEvents ! i) else ''TBA'') \<and>
         ev_priceDisplay (evs2 ! i) = ev_priceDisplay (evs1 ! i) \<and>
         ev_age (evs1 ! i) = age (rawEvents ! i) \<and> ev_age (evs2 ! i) = ev_age (evs1 ! i) \<and>
         ev_link (evs1 ! i) = link (rawEvents ! i) \<and> ev_link (evs2 ! i) = ev_link (evs1 ! i)"
proof -
  from assms(1,3) obtain el1 where e1: "evs1 ! i = mergeOne (rawEvents ! i) el1"
    unfolding mergeEvents_def by (blast dest: mergeFrom_nth)
  from assms(2,3) obtain el2 where e2: "evs2 ! i = mergeOne (rawEvents ! i) el2"
    unfolding mergeEvents_def by (blast dest: mergeFrom_nth)
  show ?thesis
    unfolding e1 e2 mergeOne_raw_fields by simp
qed

theorem merge_frame_witness:
  "ev_day ([fallbackEvent] ! 0) = ev_day ([sampleEvent] ! 0) \<and>
   ev_priceRaw ([sampleEvent] ! 0) = parsePrice (priceStr ([sampleRaw] ! 0)) \<and>
   ev_link ([fallbackEvent] ! 0) = ev_link ([sampleEvent] ! 0) \<and>
   ev_artists ([fallbackEvent] ! 0) \<noteq> ev_artists ([sampleEvent] ! 0)"
  using merge_frame [OF merge_sample merge_sample_number, of 0]
  by (simp add: sampleEvent_def fallbackEvent_def)

text \<open>
  The type of the response's element is not checked against the closed set: a
  non-empty string outside it, here \<open>rave\<close>, is written to the event as it is.
\<close>

theorem invalid_type_kept:
  "''rave'' \<notin> set VALID_TYPES \<and>
   element raveEnriched 0 =
     Inr (JObj [(''name'', JStr ''Bass Church''), (''artists'', JStr ''Chris Lake''),
                (''type'', JStr ''rave'')]) \<and>
   mergeEvents [sampleRaw] raveEnriched = Inr [sampleEvent \<lparr> ev_type := JStr ''rave'' \<rparr>] \<and>
   ev_type (sampleEvent \<lparr> ev_type := JStr ''rave'' \<rparr>) \<noteq> JStr ''night''"
  by code_simp

text \<open>
  C2, as the code has it. When the merge completes, the type of the event at index \<open>k\<close>
  is decided by the response's element at \<open>k\<close> alone: it is that element's \<open>type\<close> value
  whenever the value is truthy (so any non-empty string, inside the closed set or not,
  is kept), and \<open>night\<close> when the element or its \<open>type\<close> is missing or falsy
  (\<open>undefined\<close>, \<open>null\<close>, the empty string, zero, \<open>false\<close>).
\<close>

theorem merge_type_rule:
  assumes "mergeEvents rawEvents enriched = Inr evs" and "k < length rawEvents"
  shows "\<exists>el. element enriched k = Inr el \<and>
           ev_type (evs ! k) =
             (if truthy (optionalProperty el ''type'') then optionalProperty el ''type''
              else JStr ''night'')"
proof -
  from assms obtain el where
    "element enriched (0 + k) = Inr el" "evs ! k = mergeOne (rawEvents ! k) el"
    unfolding mergeEvents_def by (blast dest: mergeFrom_nth)
  then show ?thesis
    by (simp add: mergeOne_type)
qed

theorem merge_type_rule_witness:
  "element (JNum 7) 0 = Inr JUndefined \<and> ev_type ([fallbackEvent] ! 0) = JStr ''night'' \<and>
   element sampleEnriched 0 =
     Inr (JObj [(''name'', JStr ''Bass Church''), (''artists'', JStr ''Chris Lake''),
                (''type'', JStr ''outdoor'')]) \<and>
   ev_type ([sampleEvent] ! 0) = JStr ''outdoor''"
  using merge_type_rule [OF merge_sample_number, of 0] merge_type_rule [OF merge_sample, of 0]
  by (simp add: sampleEnriched_def)

section \<open>Properties of \<open>refresh\<close>\<close>

lemma parseEvents_Nil: "parseEvents [] = []"
  by (simp add: parseEvents_def)

text \<open>A cycle that goes through writes the merged batch and the time stamp.\<close>

lemma refresh_success_writes:
  "refresh envGood stale =
     (Returned,
      \<lparr> eventsFile = Some \<lparr> updatedAt = ''2026-03-20T12:05:00.000Z'', events = [sampleEvent] \<rparr>,
        writes = 2 \<rparr>)"
  by (simp add: refresh_def envGood_def stale_def parseEvents_sample merge_sample
      writeFileSync_def)

text \<open>
  C3. A cycle that aborts because the fetch throws, because \<open>parseEvents\<close> returns the
  empty list, or because \<open>enrichWithClaude\<close> throws (a failing \<open>JSON.parse\<close> included),
  returns with the store as it found it: the file and the count of writes are unchanged.
\<close>

theorem refresh_abort_keeps_store:
  "(fetched e = Inl err \<longrightarrow> refresh e st = (Returned, st)) \<and>
   (fetched e = Inr html \<and> parseEvents (tableRows e html) = [] \<longrightarrow>
      refresh e st = (Returned, st)) \<and>
   (fetched e = Inr html \<and> enrichWithClaude e (parseEvents (tableRows e html)) = Inl err' \<longrightarrow>
      refresh e st = (Returned, st))"
  by (simp add: refresh_def Let_def)

theorem refresh_abort_keeps_store_witness:
  "refresh envFetchThrows stale = (Returned, stale) \<and>
   refresh envNoRows stale = (Returned, stale) \<and>
   parseEvents (tableRows envEnrichThrows ''<table>...</table>'') = [sampleRaw] \<and>
   refresh envEnrichThrows stale = (Returned, stale)"
  using refresh_abort_keeps_store [of envFetchThrows "''ECONNREFUSED''" stale]
        refresh_abort_keeps_store [of envNoRows _ stale "''<html></html>''"]
        refresh_abort_keeps_store
          [of envEnrichThrows _ stale "''<table>...</table>''" "''Unexpected token''"]
  by (simp add: envFetchThrows_def envNoRows_def envEnrichThrows_def parseEvents_sample
      parseEvents_Nil)

end
